theory Spec2Isabelle
  imports Main "HOL-Library.Sublist"
begin

section \<open>Python values\<close>

text \<open>
  Both plugins work on untyped Python data: the filter on the nested dict handed over
  by the templating engine, the inventory plugin on whatever \<^verbatim>\<open>r.json()\<close> returned.
  A dict is an association list in iteration order (a Python dict has no two equal
  keys, which is the side condition \<open>distinct (map fst kvs)\<close> where a statement needs
  it). A float carries mantissa and exponent; no function below looks inside one.
  Strings are \<^typ>\<open>string\<close>, so iterating a string yields one-character strings per
  \<^typ>\<open>char\<close>.
\<close>

datatype pyval =
    PNone
  | PBool bool
  | PInt int
  | PFloat int int
  | PStr string
  | PList "pyval list"
  | PDict "(pyval \<times> pyval) list"

text \<open>The exceptions that the code raises itself or provokes in the interpreter.
  \<open>External\<close> stands for an exception of a library or of the host runtime
  (\<^verbatim>\<open>requests\<close>, \<^verbatim>\<open>lxml\<close>, the inventory object).\<close>

datatype error =
    AnsibleError string
  | AnsibleParserError string
  | KeyError
  | TypeError
  | AttributeError
  | IndexError
  | External string

section \<open>The filter \<^verbatim>\<open>dict2ini\<close>\<close>

text \<open>\<^verbatim>\<open>x.items()\<close>: the (key, value) pairs of a dict in iteration order; any other
  value has no such attribute.\<close>

fun py_items :: "pyval \<Rightarrow> error + (pyval \<times> pyval) list" where
  "py_items (PDict kvs) = Inr kvs"
| "py_items _ = Inl AttributeError"

text \<open>\<^verbatim>\<open>if isinstance(value, str) and quote: value = f'"{value}"'\<close>\<close>

fun quote_value :: "bool \<Rightarrow> pyval \<Rightarrow> pyval" where
  "quote_value quote (PStr s) = (if quote then PStr (''\"'' @ s @ ''\"'') else PStr s)"
| "quote_value quote v = v"

text \<open>\<^verbatim>\<open>dict(section=section, option=option, value=value)\<close>\<close>

definition ini_record :: "pyval \<Rightarrow> pyval \<Rightarrow> pyval \<Rightarrow> pyval" where
  "ini_record sec opt val =
     PDict [(PStr ''section'', sec), (PStr ''option'', opt), (PStr ''value'', val)]"

text \<open>The inner loop \<^verbatim>\<open>for option, value in elements.items()\<close>, appending to \<open>ret\<close>.\<close>

fun dict2ini_options :: "bool \<Rightarrow> pyval \<Rightarrow> (pyval \<times> pyval) list \<Rightarrow> pyval list \<Rightarrow> pyval list" where
  "dict2ini_options quote sec [] ret = ret"
| "dict2ini_options quote sec ((opt, val) # rest) ret =
     dict2ini_options quote sec rest (ret @ [ini_record sec opt (quote_value quote val)])"

text \<open>The outer loop \<^verbatim>\<open>for section, elements in data.items()\<close>. A section whose value
  is not a dict makes \<^verbatim>\<open>elements.items()\<close> raise, and the records collected so far
  are lost with the exception.\<close>

fun dict2ini_sections :: "bool \<Rightarrow> (pyval \<times> pyval) list \<Rightarrow> pyval list \<Rightarrow> error + pyval list" where
  "dict2ini_sections quote [] ret = Inr ret"
| "dict2ini_sections quote ((sec, elements) # rest) ret =
     (case py_items elements of
        Inl e \<Rightarrow> Inl e
      | Inr opts \<Rightarrow> dict2ini_sections quote rest (dict2ini_options quote sec opts ret))"

definition dict2ini :: "pyval \<Rightarrow> bool \<Rightarrow> error + pyval list" where
  "dict2ini data quote =
     (case py_items data of
        Inl e \<Rightarrow> Inl e
      | Inr secs \<Rightarrow> dict2ini_sections quote secs [])"

text \<open>A mapping of mappings, given by its sections and their options in iteration
  order, as the Python value the filter receives.\<close>

definition nested_dict :: "(pyval \<times> (pyval \<times> pyval) list) list \<Rightarrow> pyval" where
  "nested_dict secs = PDict (map (\<lambda>(sec, opts). (sec, PDict opts)) secs)"

text \<open>The (section, option, value) triples of a mapping of mappings: outer order, then
  inner order per section.\<close>

definition triples :: "(pyval \<times> (pyval \<times> pyval) list) list \<Rightarrow> (pyval \<times> pyval \<times> pyval) list" where
  "triples secs = concat (map (\<lambda>(sec, opts). map (\<lambda>(opt, val). (sec, opt, val)) opts) secs)"

section \<open>Python's subscript, iteration and \<^verbatim>\<open>keys\<close>\<close>

text \<open>\<^verbatim>\<open>xs[i]\<close> on a sequence: a negative index counts from the end, an index out of
  range raises IndexError.\<close>

definition index_seq :: "'a list \<Rightarrow> int \<Rightarrow> error + 'a" where
  "index_seq xs i =
     (if 0 \<le> i \<and> i < int (length xs) then Inr (xs ! nat i)
      else if i < 0 \<and> - i \<le> int (length xs) then Inr (xs ! nat (int (length xs) + i))
      else Inl IndexError)"

text \<open>\<^verbatim>\<open>x[k]\<close>. A dict raises TypeError on an unhashable key and KeyError on a missing
  one; a list or a string takes an integer (a bool is an integer); nothing else has a
  subscript. Dict keys are compared structurally, which is Python's comparison for the
  lookups made here: a string constant, or a key obtained by iterating the same dict.\<close>

definition as_index :: "pyval \<Rightarrow> int option" where
  "as_index k =
     (case k of PInt i \<Rightarrow> Some i | PBool b \<Rightarrow> Some (if b then 1 else 0) | _ \<Rightarrow> None)"

definition py_getitem :: "pyval \<Rightarrow> pyval \<Rightarrow> error + pyval" where
  "py_getitem container k =
     (case container of
        PDict kvs \<Rightarrow>
          (case k of
             PList _ \<Rightarrow> Inl TypeError
           | PDict _ \<Rightarrow> Inl TypeError
           | _ \<Rightarrow> (case map_of kvs k of None \<Rightarrow> Inl KeyError | Some v \<Rightarrow> Inr v))
      | PList xs \<Rightarrow>
          (case as_index k of None \<Rightarrow> Inl TypeError | Some i \<Rightarrow> index_seq xs i)
      | PStr s \<Rightarrow>
          (case as_index k of
             None \<Rightarrow> Inl TypeError
           | Some i \<Rightarrow> map_sum id (\<lambda>c. PStr [c]) (index_seq s i))
      | _ \<Rightarrow> Inl TypeError)"

text \<open>\<^verbatim>\<open>for x in v\<close>: the keys of a dict, the elements of a list, the characters of a
  string; nothing else is iterable.\<close>

fun py_iter :: "pyval \<Rightarrow> error + pyval list" where
  "py_iter (PDict kvs) = Inr (map fst kvs)"
| "py_iter (PList xs) = Inr xs"
| "py_iter (PStr s) = Inr (map (\<lambda>c. PStr [c]) s)"
| "py_iter _ = Inl TypeError"

text \<open>\<^verbatim>\<open>v.keys()\<close>\<close>

fun py_keys :: "pyval \<Rightarrow> error + pyval list" where
  "py_keys (PDict kvs) = Inr (map fst kvs)"
| "py_keys _ = Inl AttributeError"

text \<open>\<^verbatim>\<open>needle in haystack\<close> on strings.\<close>

fun str_contains :: "string \<Rightarrow> string \<Rightarrow> bool" where
  "str_contains needle [] = (needle = [])"
| "str_contains needle (c # cs) = (prefix needle (c # cs) \<or> str_contains needle cs)"

text \<open>\<^verbatim>\<open>str(n)\<close> of an integer, as an f-string renders it.\<close>

fun str_nat :: "nat \<Rightarrow> string" where
  "str_nat n =
     (if n < 10 then [''0123456789'' ! n]
      else str_nat (n div 10) @ [''0123456789'' ! (n mod 10)])"

declare str_nat.simps [simp del]

definition str_int :: "int \<Rightarrow> string" where
  "str_int i = (if i < 0 then ''-'' @ str_nat (nat (- i)) else str_nat (nat i))"

section \<open>The inventory plugin \<^verbatim>\<open>http\<close>\<close>

subsection \<open>The plugin's surroundings\<close>

text \<open>A response of \<^verbatim>\<open>requests\<close>: \<open>headers\<close> is the lookup of its case-insensitive header
  dict, \<open>json\<close> what \<^verbatim>\<open>r.json()\<close> returns or raises, \<open>body_text\<close> is \<^verbatim>\<open>r.text\<close>.\<close>

record response =
  status_code :: int
  headers :: "string \<rightharpoonup> string"
  body_text :: string
  json :: "error + pyval"

text \<open>The form posted to the login page, in the order the dict is built.\<close>

type_synonym form = "(string \<times> string option) list"

text \<open>The three kinds of request: \<^verbatim>\<open>requests.get(url)\<close> with or without
  \<^verbatim>\<open>auth=(username, password)\<close>, and \<^verbatim>\<open>session.get(url)\<close> with or without
  \<^verbatim>\<open>data=auth\<close>, and \<^verbatim>\<open>session.post(login_url, data=auth)\<close>.\<close>

datatype http_request =
    Get "string option" "(string \<times> string) option"
  | SessionGet "string option" "form option"
  | SessionPost string form

text \<open>The calls into the host's inventory: \<^verbatim>\<open>self._populate_host_vars(hosts, variables)\<close>,
  \<^verbatim>\<open>inventory.add_group(group)\<close>, \<^verbatim>\<open>inventory.add_host(host, group)\<close> and
  \<^verbatim>\<open>inventory.add_child(group, child)\<close>.\<close>

datatype sink_call =
    PopulateHostVars "pyval list" pyval
  | AddGroup pyval
  | AddHost pyval pyval
  | AddChild pyval pyval

text \<open>What the plugin does to the outside, in the order it does it. The verbose
  \<^verbatim>\<open>display.vvv\<close> lines are not recorded; where the formatted text evaluates a
  subscript that can raise, the model evaluates it at that place.\<close>

datatype event = Request http_request | Sink sink_call

text \<open>A parsed HTML page: an XPath query gives the matching elements, each by its
  attribute dict.\<close>

type_synonym html_tree = "string \<Rightarrow> (string \<rightharpoonup> string) list"

text \<open>Everything the plugin does not own, as parameters: the process environment, the
  options of the configuration file as \<^verbatim>\<open>get_option\<close> returns them, the network (the
  answer to a request may depend on what happened before, as within a session, and a
  request may raise), the HTML parser, and the inventory, whose operations may raise
  depending on the calls made before.\<close>

record world =
  getenv :: "string \<rightharpoonup> string"
  get_option :: "string \<rightharpoonup> string"
  send :: "event list \<Rightarrow> http_request \<Rightarrow> error + response"
  fromstring :: "string \<Rightarrow> error + html_tree"
  sink :: "event list \<Rightarrow> sink_call \<Rightarrow> error option"

subsection \<open>Computations that raise and act on the outside\<close>

type_synonym 'a io = "event list \<Rightarrow> (error + 'a) \<times> event list"

definition return :: "'a \<Rightarrow> 'a io" where
  "return x = (\<lambda>log. (Inr x, log))"

definition lift :: "error + 'a \<Rightarrow> 'a io" where
  "lift r = (\<lambda>log. (r, log))"

definition bnd :: "'a io \<Rightarrow> ('a \<Rightarrow> 'b io) \<Rightarrow> 'b io" where
  "bnd m f = (\<lambda>log. case m log of (Inl e, log') \<Rightarrow> (Inl e, log') | (Inr x, log') \<Rightarrow> f x log')"

text \<open>A request and an inventory call are logged when they are made, whether they
  return or raise.\<close>

definition request :: "world \<Rightarrow> http_request \<Rightarrow> response io" where
  "request w req = (\<lambda>log. (send w log req, log @ [Request req]))"

definition call_sink :: "world \<Rightarrow> sink_call \<Rightarrow> unit io" where
  "call_sink w c =
     (\<lambda>log. (case sink w log c of None \<Rightarrow> Inr () | Some e \<Rightarrow> Inl e, log @ [Sink c]))"

subsection \<open>The plugin object\<close>

record plugin =
  url :: "string option"
  auth_method :: "string option"
  username :: "string option"
  password :: "string option"
  data :: pyval

text \<open>\<^verbatim>\<open>__init__\<close>\<close>

definition init :: "world \<Rightarrow> plugin" where
  "init w =
     \<lparr>url = getenv w ''HTTP_URL'',
      auth_method = getenv w ''HTTP_AUTH_METHOD'',
      username = getenv w ''HTTP_USERNAME'',
      password = getenv w ''HTTP_PASSWORD'',
      data = PNone\<rparr>"

text \<open>\<^verbatim>\<open>f'{self.url}'\<close>\<close>

definition str_opt :: "string option \<Rightarrow> string" where
  "str_opt x = (case x of None \<Rightarrow> ''None'' | Some s \<Rightarrow> s)"

definition nl :: string where
  "nl = [CHR 0x0A]"

definition status_message :: "int \<Rightarrow> string" where
  "status_message code =
     nl @ ''                Server returned status code '' @ str_int code @ ''.'' @
     nl @ ''                Maybe server is in Maintenance or unreachable...'' @
     nl @ ''            ''"

definition not_json_message :: "string option \<Rightarrow> string" where
  "not_json_message u =
     nl @ ''                '' @ str_opt u @ '' did not return json.'' @
     nl @ ''                The page must return the same content as the'' @
     nl @ ''                `ansible-inventory --list` command.'' @
     nl @ ''            ''"

definition url_missing_message :: string where
  "url_missing_message =
     nl @ ''                url is missing.'' @
     nl @ ''                Please set it either as parameter'' @
     nl @ ''                or environment variable (HTTP_URL)'' @
     nl @ ''            ''"

definition no_data_message :: string where
  "no_data_message = ''Did not received any data. Can not parse inventory.''"

text \<open>\<^verbatim>\<open>is_valid_content\<close>. The first verbose line formats
  \<^verbatim>\<open>data.headers['Content-Type']\<close>, so a response without that header raises KeyError
  before the status code is looked at.\<close>

definition is_valid_content :: "plugin \<Rightarrow> response \<Rightarrow> error + bool" where
  "is_valid_content self r =
     (case headers r ''Content-Type'' of
        None \<Rightarrow> Inl KeyError
      | Some content_type \<Rightarrow>
          if status_code r \<ge> 300 then Inl (AnsibleError (status_message (status_code r)))
          else if str_contains ''json'' content_type then Inr True
          else Inl (AnsibleParserError (not_json_message (url self))))"

text \<open>The common end of both page getters:
  \<^verbatim>\<open>if self.is_valid_content(r): return r.json()\<close>, and None otherwise.\<close>

definition checked_json :: "plugin \<Rightarrow> response \<Rightarrow> error + pyval" where
  "checked_json self r =
     (case is_valid_content self r of
        Inl e \<Rightarrow> Inl e
      | Inr valid \<Rightarrow> if valid then json r else Inr PNone)"

text \<open>The request of \<^verbatim>\<open>get_generic_page\<close>: with \<^verbatim>\<open>auth=(username, password)\<close> when both
  are set, plain when \<^verbatim>\<open>self.username is None or self.password is None\<close>.\<close>

definition generic_request :: "plugin \<Rightarrow> http_request" where
  "generic_request self =
     (case (username self, password self) of
        (Some u, Some p) \<Rightarrow> Get (url self) (Some (u, p))
      | _ \<Rightarrow> Get (url self) None)"

definition get_generic_page :: "world \<Rightarrow> plugin \<Rightarrow> pyval io" where
  "get_generic_page w self =
     bnd (request w (generic_request self)) (\<lambda>r. lift (checked_json self r))"

text \<open>\<^verbatim>\<open>tree.xpath(query)[0].attrib[name]\<close>\<close>

definition first_attrib :: "html_tree \<Rightarrow> string \<Rightarrow> string \<Rightarrow> error + string" where
  "first_attrib tree query name =
     (case tree query of
        [] \<Rightarrow> Inl IndexError
      | element # _ \<Rightarrow> (case element name of None \<Rightarrow> Inl KeyError | Some v \<Rightarrow> Inr v))"

definition xmeta :: string where
  "xmeta = ''//meta[@property=\"og:url\"]''"

definition xinput :: string where
  "xinput = ''//input[@name=\"authenticity_token\"]''"

definition get_gitlab_page :: "world \<Rightarrow> plugin \<Rightarrow> pyval io" where
  "get_gitlab_page w self =
     bnd (request w (SessionGet (url self) None)) (\<lambda>oauth.
     bnd (lift (fromstring w (body_text oauth))) (\<lambda>tree.
     bnd (lift (first_attrib tree xmeta ''content'')) (\<lambda>login_url.
     bnd (lift (first_attrib tree xinput ''value'')) (\<lambda>token.
     let auth = [(''authenticity_token'', Some token),
                 (''user[login]'', username self),
                 (''user[password]'', password self)]
     in bnd (request w (SessionPost login_url auth)) (\<lambda>_.
        bnd (request w (SessionGet (url self) (Some auth))) (\<lambda>r.
        lift (checked_json self r)))))))"

subsection \<open>Populating the inventory\<close>

text \<open>The loop of \<^verbatim>\<open>add_hostvars\<close>; \<^verbatim>\<open>hostvars[host]\<close> is evaluated for the verbose line
  before the call.\<close>

fun add_hostvars_loop :: "world \<Rightarrow> pyval \<Rightarrow> pyval list \<Rightarrow> unit io" where
  "add_hostvars_loop w hostvars [] = return ()"
| "add_hostvars_loop w hostvars (host # rest) =
     bnd (lift (py_getitem hostvars host)) (\<lambda>vars.
     bnd (call_sink w (PopulateHostVars [host] vars)) (\<lambda>_.
     add_hostvars_loop w hostvars rest))"

definition add_hostvars :: "world \<Rightarrow> pyval \<Rightarrow> unit io" where
  "add_hostvars w d =
     bnd (lift (py_getitem d (PStr ''_meta''))) (\<lambda>meta.
     bnd (lift (py_getitem meta (PStr ''hostvars''))) (\<lambda>hostvars.
     bnd (lift (py_iter hostvars)) (\<lambda>hosts.
     add_hostvars_loop w hostvars hosts)))"

text \<open>The two inner loops of \<^verbatim>\<open>add_groups\<close>.\<close>

fun add_host_loop :: "world \<Rightarrow> pyval \<Rightarrow> pyval list \<Rightarrow> unit io" where
  "add_host_loop w grp [] = return ()"
| "add_host_loop w grp (host # rest) =
     bnd (call_sink w (AddHost host grp)) (\<lambda>_. add_host_loop w grp rest)"

fun add_child_loop :: "world \<Rightarrow> pyval \<Rightarrow> pyval list \<Rightarrow> unit io" where
  "add_child_loop w grp [] = return ()"
| "add_child_loop w grp (child # rest) =
     bnd (call_sink w (AddChild grp child)) (\<lambda>_. add_child_loop w grp rest)"

text \<open>\<^verbatim>\<open>if mode == wanted and mode in groups[group].keys(): for x in groups[group][wanted]\<close>,
  with the loop to run given as \<open>body\<close>. The second conjunct is evaluated only when the
  first holds.\<close>

definition members_if :: "pyval \<Rightarrow> pyval \<Rightarrow> string \<Rightarrow> string \<Rightarrow> (pyval list \<Rightarrow> unit io) \<Rightarrow> unit io" where
  "members_if groups grp mode wanted body =
     (if mode = wanted then
        bnd (lift (py_getitem groups grp)) (\<lambda>entry.
        bnd (lift (py_keys entry)) (\<lambda>keys.
        if PStr mode \<in> set keys then
          bnd (lift (py_getitem groups grp)) (\<lambda>entry.
          bnd (lift (py_getitem entry (PStr wanted))) (\<lambda>listed.
          bnd (lift (py_iter listed)) body))
        else return ()))
      else return ())"

text \<open>The outer loop of \<^verbatim>\<open>add_groups\<close>.\<close>

fun add_groups_loop :: "world \<Rightarrow> pyval \<Rightarrow> string \<Rightarrow> pyval list \<Rightarrow> unit io" where
  "add_groups_loop w groups mode [] = return ()"
| "add_groups_loop w groups mode (grp # rest) =
     (if grp = PStr ''_meta'' then add_groups_loop w groups mode rest
      else
        bnd (call_sink w (AddGroup grp)) (\<lambda>_.
        bnd (members_if groups grp mode ''hosts'' (add_host_loop w grp)) (\<lambda>_.
        bnd (members_if groups grp mode ''children'' (add_child_loop w grp)) (\<lambda>_.
        add_groups_loop w groups mode rest))))"

definition add_groups :: "world \<Rightarrow> pyval \<Rightarrow> string \<Rightarrow> unit io" where
  "add_groups w groups mode =
     bnd (lift (py_iter groups)) (add_groups_loop w groups mode)"

subsection \<open>\<^verbatim>\<open>parse\<close>\<close>

text \<open>The four settings after the environment and the configuration file are merged:
  \<^verbatim>\<open>if self.x is None: self.x = self.get_option('x')\<close>.\<close>

definition resolve :: "world \<Rightarrow> plugin \<Rightarrow> plugin" where
  "resolve w self =
     self\<lparr>url := (case url self of None \<Rightarrow> get_option w ''url'' | Some u \<Rightarrow> Some u),
          auth_method :=
            (case auth_method self of None \<Rightarrow> get_option w ''auth_method'' | Some a \<Rightarrow> Some a),
          username :=
            (case username self of None \<Rightarrow> get_option w ''username'' | Some u \<Rightarrow> Some u),
          password :=
            (case password self of None \<Rightarrow> get_option w ''password'' | Some p \<Rightarrow> Some p)\<rparr>"

text \<open>The two fetch branches. They are two \<^verbatim>\<open>if\<close>s, not an \<^verbatim>\<open>if\<close>/\<^verbatim>\<open>elif\<close>; a method
  that matches neither leaves \<^verbatim>\<open>self.data\<close> as it was.\<close>

definition fetch :: "world \<Rightarrow> plugin \<Rightarrow> plugin io" where
  "fetch w self =
     bnd (if auth_method self \<in> {None, Some ''None'', Some ''basic''}
          then bnd (get_generic_page w self) (\<lambda>d. return (self\<lparr>data := d\<rparr>))
          else return self) (\<lambda>self.
     if auth_method self = Some ''gitlab''
     then bnd (get_gitlab_page w self) (\<lambda>d. return (self\<lparr>data := d\<rparr>))
     else return self)"

text \<open>The last statement of \<^verbatim>\<open>parse\<close>.\<close>

definition populate :: "world \<Rightarrow> pyval \<Rightarrow> unit io" where
  "populate w d =
     (if d = PNone then lift (Inl (AnsibleParserError no_data_message))
      else
        bnd (add_hostvars w d) (\<lambda>_.
        bnd (add_groups w d ''hosts'') (\<lambda>_.
        add_groups w d ''children'')))"

text \<open>\<^verbatim>\<open>parse\<close>, after the host's \<^verbatim>\<open>_read_config_data\<close> has read the configuration file.
  The result is the exception or normal return, together with the fetched document
  (\<^verbatim>\<open>self.data\<close> as far as it was assigned).\<close>

definition parse :: "world \<Rightarrow> plugin \<Rightarrow> (unit \<times> pyval) io" where
  "parse w self0 =
     (let self = resolve w self0 in
      if url self = None then lift (Inl (AnsibleError url_missing_message))
      else
        bnd (fetch w self) (\<lambda>self.
        bnd (populate w (data self)) (\<lambda>_. return ((), data self))))"

section \<open>The passes as the specification describes them\<close>

text \<open>Readers that never raise: the elements, the keys and the entry under a key, with
  nothing where the Python would raise. A run that returns normally never meets the
  defaults.\<close>

definition elems :: "pyval \<Rightarrow> pyval list" where
  "elems v = (case py_iter v of Inr xs \<Rightarrow> xs | Inl _ \<Rightarrow> [])"

definition item :: "pyval \<Rightarrow> pyval \<Rightarrow> pyval" where
  "item container k = (case py_getitem container k of Inr v \<Rightarrow> v | Inl _ \<Rightarrow> PNone)"

definition keys_of :: "pyval \<Rightarrow> pyval list" where
  "keys_of v = (case py_keys v of Inr ks \<Rightarrow> ks | Inl _ \<Rightarrow> [])"

text \<open>An object (a dict), and an object that has the key.\<close>

definition is_object :: "pyval \<Rightarrow> bool" where
  "is_object v = (case v of PDict _ \<Rightarrow> True | _ \<Rightarrow> False)"

definition has_key :: "pyval \<Rightarrow> string \<Rightarrow> bool" where
  "has_key v key = (case v of PDict kvs \<Rightarrow> map_of kvs (PStr key) \<noteq> None | _ \<Rightarrow> False)"

text \<open>The entries listed under \<open>key\<close> in the value of a group; none when the value has
  no such key.\<close>

definition listed :: "pyval \<Rightarrow> pyval \<Rightarrow> string \<Rightarrow> pyval list" where
  "listed groups grp key =
     (if PStr key \<in> set (keys_of (item groups grp))
      then elems (item (item groups grp) (PStr key)) else [])"

text \<open>Step (a): one registration per host key under \<^verbatim>\<open>data._meta.hostvars\<close>.\<close>

definition hostvars_pass :: "pyval \<Rightarrow> event list" where
  "hostvars_pass d =
     (let hostvars = item (item d (PStr ''_meta'')) (PStr ''hostvars'')
      in map (\<lambda>host. Sink (PopulateHostVars [host] (item hostvars host))) (elems hostvars))"

text \<open>The top-level keys except \<^verbatim>\<open>_meta\<close>.\<close>

definition groups_of :: "pyval \<Rightarrow> pyval list" where
  "groups_of d = filter (\<lambda>grp. grp \<noteq> PStr ''_meta'') (elems d)"

text \<open>Step (b): every group is registered and each entry of its \<^verbatim>\<open>hosts\<close> list added to
  it.\<close>

definition hosts_pass :: "pyval \<Rightarrow> event list" where
  "hosts_pass d =
     concat (map (\<lambda>grp. Sink (AddGroup grp) # map (\<lambda>host. Sink (AddHost host grp)) (listed d grp ''hosts''))
               (groups_of d))"

text \<open>Step (c): every group is registered again and each entry of its \<^verbatim>\<open>children\<close> list
  added as its child.\<close>

definition children_pass :: "pyval \<Rightarrow> event list" where
  "children_pass d =
     concat (map (\<lambda>grp. Sink (AddGroup grp) # map (\<lambda>child. Sink (AddChild grp child)) (listed d grp ''children''))
               (groups_of d))"

text \<open>A computation that only appends events of one kind to the log.\<close>

definition emits :: "(event \<Rightarrow> bool) \<Rightarrow> 'a io \<Rightarrow> bool" where
  "emits P m \<longleftrightarrow> (\<forall>log. \<exists>es. snd (m log) = log @ es \<and> list_all P es)"


text \<open>The kinds of events.\<close>

fun is_request :: "event \<Rightarrow> bool" where
  "is_request (Request _) = True"
| "is_request _ = False"

fun is_hostvars :: "event \<Rightarrow> bool" where
  "is_hostvars (Sink (PopulateHostVars _ _)) = True"
| "is_hostvars _ = False"

text \<open>A call of the pass \<open>mode\<close> on a group other than \<open>_meta\<close>.\<close>

fun in_pass :: "string \<Rightarrow> event \<Rightarrow> bool" where
  "in_pass mode (Sink (AddGroup grp)) = (grp \<noteq> PStr ''_meta'')"
| "in_pass mode (Sink (AddHost host grp)) = (mode = ''hosts'' \<and> grp \<noteq> PStr ''_meta'')"
| "in_pass mode (Sink (AddChild grp child)) = (mode = ''children'' \<and> grp \<noteq> PStr ''_meta'')"
| "in_pass mode _ = False"


text \<open>An inventory call that names \<open>g\<close> as the group it registers or adds to.\<close>

fun names_group :: "pyval \<Rightarrow> event \<Rightarrow> bool" where
  "names_group g (Sink (AddGroup grp)) = (grp = g)"
| "names_group g (Sink (AddHost host grp)) = (grp = g)"
| "names_group g (Sink (AddChild grp child)) = (grp = g)"
| "names_group g _ = False"

section \<open>Well-formed inventory documents\<close>

text \<open>The documents of the specification's data model: an object whose \<^verbatim>\<open>_meta\<close> is an
  object with an object \<^verbatim>\<open>hostvars\<close>, and whose other values are objects in which
  \<^verbatim>\<open>hosts\<close> and \<^verbatim>\<open>children\<close>, where present, are lists. The keys of a dict are
  hashable and distinct.\<close>

definition hashable :: "pyval \<Rightarrow> bool" where
  "hashable k = (case k of PList _ \<Rightarrow> False | PDict _ \<Rightarrow> False | _ \<Rightarrow> True)"

definition list_or_absent :: "(pyval \<times> pyval) list \<Rightarrow> string \<Rightarrow> bool" where
  "list_or_absent entry key =
     (case map_of entry (PStr key) of None \<Rightarrow> True | Some (PList _) \<Rightarrow> True | Some _ \<Rightarrow> False)"

definition wf_group :: "pyval \<Rightarrow> bool" where
  "wf_group v =
     (case v of
        PDict entry \<Rightarrow> list_or_absent entry ''hosts'' \<and> list_or_absent entry ''children''
      | _ \<Rightarrow> False)"

definition wf_hostvars :: "(pyval \<times> pyval) list \<Rightarrow> bool" where
  "wf_hostvars kvs =
     (case map_of kvs (PStr ''_meta'') of
        Some (PDict m) \<Rightarrow>
          (case map_of m (PStr ''hostvars'') of
             Some (PDict hv) \<Rightarrow> list_all hashable (map fst hv)
           | _ \<Rightarrow> False)
      | _ \<Rightarrow> False)"

definition wf_inventory :: "pyval \<Rightarrow> bool" where
  "wf_inventory d =
     (case d of
        PDict kvs \<Rightarrow>
          wf_hostvars kvs \<and> distinct (map fst kvs) \<and>
          list_all (\<lambda>(grp, v). hashable grp \<and> (grp = PStr ''_meta'' \<or> wf_group v)) kvs
      | _ \<Rightarrow> False)"

text \<open>A computation that returns normally from every log.\<close>

definition returns :: "unit io \<Rightarrow> bool" where
  "returns m \<longleftrightarrow> (\<forall>log. fst (m log) = Inr ())"

section \<open>Concrete inputs\<close>

text \<open>The document of the specification's example, served as JSON to an unauthenticated
  request, with an inventory that accepts every call.\<close>

definition example_doc :: pyval where
  "example_doc =
     PDict [(PStr ''_meta'', PDict [(PStr ''hostvars'', PDict [(PStr ''h1'', PDict [(PStr ''a'', PInt 1)])])]),
            (PStr ''g1'', PDict [(PStr ''hosts'', PList [PStr ''h1''])]),
            (PStr ''g2'', PDict [(PStr ''children'', PList [PStr ''g1''])])]"

definition example_response :: response where
  "example_response =
     \<lparr>status_code = 200, headers = [''Content-Type'' \<mapsto> ''application/json''],
      body_text = [], json = Inr example_doc\<rparr>"

definition example_world :: world where
  "example_world =
     \<lparr>getenv = Map.empty,
      get_option = [''url'' \<mapsto> ''https://example.gitlab.io/example_page/inventory.json''],
      send = (\<lambda>log req. Inr example_response),
      fromstring = (\<lambda>page. Inl (External ''ParserError'')),
      sink = (\<lambda>log c. None)\<rparr>"

definition example_trace :: "event list" where
  "example_trace =
     [Request (Get (Some ''https://example.gitlab.io/example_page/inventory.json'') None),
      Sink (PopulateHostVars [PStr ''h1''] (PDict [(PStr ''a'', PInt 1)])),
      Sink (AddGroup (PStr ''g1'')),
      Sink (AddHost (PStr ''h1'') (PStr ''g1'')),
      Sink (AddGroup (PStr ''g2'')),
      Sink (AddGroup (PStr ''g1'')),
      Sink (AddGroup (PStr ''g2'')),
      Sink (AddChild (PStr ''g2'') (PStr ''g1''))]"

text \<open>A mapping with one section, one string option and one numeric option.\<close>

definition example_ini :: "(pyval \<times> (pyval \<times> pyval) list) list" where
  "example_ini = [(PStr ''s'', [(PStr ''o'', PStr ''v''), (PStr ''n'', PInt 5)])]"

text \<open>No url anywhere; an authentication method that is none of the known ones; a
  404 without a Content-Type header; an HTML page; a document without \<^verbatim>\<open>_meta\<close>.\<close>

definition bare_world :: world where
  "bare_world =
     \<lparr>getenv = Map.empty, get_option = Map.empty,
      send = (\<lambda>log req. Inr example_response),
      fromstring = (\<lambda>page. Inl (External ''ParserError'')),
      sink = (\<lambda>log c. None)\<rparr>"

definition token_world :: world where
  "token_world = example_world\<lparr>getenv := [''HTTP_AUTH_METHOD'' \<mapsto> ''token'']\<rparr>"

definition not_found_response :: response where
  "not_found_response =
     \<lparr>status_code = 404, headers = Map.empty, body_text = [],
      json = Inl (External ''JSONDecodeError'')\<rparr>"

definition not_found_world :: world where
  "not_found_world = example_world\<lparr>send := (\<lambda>log req. Inr not_found_response)\<rparr>"

definition html_response :: response where
  "html_response =
     \<lparr>status_code = 200, headers = [''Content-Type'' \<mapsto> ''text/html''],
      body_text = ''<html></html>'', json = Inl (External ''JSONDecodeError'')\<rparr>"

definition html_world :: world where
  "html_world = example_world\<lparr>send := (\<lambda>log req. Inr html_response)\<rparr>"

definition no_meta_doc :: pyval where
  "no_meta_doc = PDict [(PStr ''g1'', PDict [(PStr ''hosts'', PList [PStr ''h1''])])]"

definition no_meta_world :: world where
  "no_meta_world =
     example_world\<lparr>send := (\<lambda>log req. Inr (example_response\<lparr>json := Inr no_meta_doc\<rparr>))\<rparr>"

section \<open>Properties of \<^verbatim>\<open>dict2ini\<close>\<close>

lemma dict2ini_options_append:
  "dict2ini_options quote sec opts ret =
     ret @ map (\<lambda>(opt, val). ini_record sec opt (quote_value quote val)) opts"
  by (induction opts arbitrary: ret) auto

lemma dict2ini_sections_nested:
  "dict2ini_sections quote (map (\<lambda>(sec, opts). (sec, PDict opts)) secs) ret =
     Inr (ret @ map (\<lambda>(sec, opt, val). ini_record sec opt (quote_value quote val)) (triples secs))"
  by (induction secs arbitrary: ret) (auto simp: triples_def dict2ini_options_append)

lemma dict2ini_nested:
  "dict2ini (nested_dict secs) quote =
     Inr (map (\<lambda>(sec, opt, val). ini_record sec opt (quote_value quote val)) (triples secs))"
  by (simp add: dict2ini_def nested_dict_def dict2ini_sections_nested)

lemma length_triples: "length (triples secs) = sum_list (map (\<lambda>(sec, opts). length opts) secs)"
  by (induction secs) (auto simp: triples_def)


section \<open>What each part of the plugin does to the outside\<close>

lemma emits_return: "emits P (return x)"
  by (simp add: emits_def return_def)

lemma emits_lift: "emits P (lift r)"
  by (simp add: emits_def lift_def)

lemma emits_bnd:
  assumes "emits P m" and "\<And>x. emits P (f x)"
  shows "emits P (bnd m f)"
  unfolding emits_def
proof
  fix log
  from assms(1) obtain es where es: "snd (m log) = log @ es" "list_all P es"
    unfolding emits_def by blast
  show "\<exists>es. snd (bnd m f log) = log @ es \<and> list_all P es"
  proof (cases "m log")
    case (Pair r log')
    with es have log': "log' = log @ es" by simp
    show ?thesis
    proof (cases r)
      case (Inl e)
      with Pair log' es show ?thesis by (auto simp: bnd_def)
    next
      case (Inr x)
      from assms(2) obtain fs where "snd (f x log') = log' @ fs" "list_all P fs"
        unfolding emits_def by blast
      with Pair Inr log' es show ?thesis by (auto simp: bnd_def)
    qed
  qed
qed

lemma emits_call_sink: "P (Sink c) \<Longrightarrow> emits P (call_sink w c)"
  by (simp add: emits_def call_sink_def)

lemma emits_request: "P (Request req) \<Longrightarrow> emits P (request w req)"
  by (simp add: emits_def request_def)

lemma emits_add_hostvars_loop: "emits is_hostvars (add_hostvars_loop w hostvars hosts)"
  by (induction hosts) (auto intro!: emits_return emits_bnd emits_lift emits_call_sink)

lemma emits_add_hostvars: "emits is_hostvars (add_hostvars w d)"
  unfolding add_hostvars_def
  by (intro emits_bnd emits_lift emits_add_hostvars_loop)

lemma emits_add_host_loop:
  "grp \<noteq> PStr ''_meta'' \<Longrightarrow> emits (in_pass ''hosts'') (add_host_loop w grp hosts)"
  by (induction hosts) (auto intro!: emits_return emits_bnd emits_call_sink)

lemma emits_add_child_loop:
  "grp \<noteq> PStr ''_meta'' \<Longrightarrow> emits (in_pass ''children'') (add_child_loop w grp children)"
  by (induction children) (auto intro!: emits_return emits_bnd emits_call_sink)

lemma emits_members_if:
  assumes "\<And>xs. mode = wanted \<Longrightarrow> emits P (body xs)"
  shows "emits P (members_if groups grp mode wanted body)"
  unfolding members_if_def using assms
  by (auto intro!: emits_return emits_bnd emits_lift)

lemma emits_add_groups_loop: "emits (in_pass mode) (add_groups_loop w groups mode gs)"
proof (induction gs)
  case Nil
  show ?case by (simp add: emits_return)
next
  case (Cons grp gs)
  show ?case
  proof (cases "grp = PStr ''_meta''")
    case True
    with Cons show ?thesis by simp
  next
    case False
    have "emits (in_pass mode) (call_sink w (AddGroup grp))"
      using False by (simp add: emits_call_sink)
    moreover have "emits (in_pass mode) (members_if groups grp mode ''hosts'' (add_host_loop w grp))"
      using False by (intro emits_members_if) (simp add: emits_add_host_loop)
    moreover have "emits (in_pass mode) (members_if groups grp mode ''children'' (add_child_loop w grp))"
      using False by (intro emits_members_if) (simp add: emits_add_child_loop)
    ultimately show ?thesis
      using False Cons by (simp add: emits_bnd)
  qed
qed

lemma emits_add_groups: "emits (in_pass mode) (add_groups w d mode)"
  unfolding add_groups_def by (intro emits_bnd emits_lift emits_add_groups_loop)

lemma emits_checked: "emits P m \<Longrightarrow> emits P (bnd m (\<lambda>r. lift (g r)))"
  by (intro emits_bnd emits_lift)

lemma emits_get_generic_page: "emits is_request (get_generic_page w self)"
  unfolding get_generic_page_def
  by (intro emits_bnd emits_lift emits_request) simp

lemma emits_get_gitlab_page: "emits is_request (get_gitlab_page w self)"
  unfolding get_gitlab_page_def Let_def
  by (intro emits_bnd emits_lift emits_request) simp_all

lemma emits_fetch: "emits is_request (fetch w self)"
  unfolding fetch_def
  by (auto intro!: emits_bnd emits_return emits_get_generic_page emits_get_gitlab_page)

section \<open>The trace of a run that returns\<close>

lemma bnd_Inr:
  "bnd m f log = (Inr y, L) \<longleftrightarrow> (\<exists>x log'. m log = (Inr x, log') \<and> f x log' = (Inr y, L))"
  by (auto simp: bnd_def split: prod.splits sum.splits)

lemma lift_Inr: "lift r log = (Inr x, L) \<longleftrightarrow> r = Inr x \<and> L = log"
  by (auto simp: lift_def)

lemma return_Inr: "return x log = (Inr y, L) \<longleftrightarrow> y = x \<and> L = log"
  by (auto simp: return_def)

lemma call_sink_Inr:
  "call_sink w c log = (Inr u, L) \<longleftrightarrow> sink w log c = None \<and> L = log @ [Sink c]"
  by (auto simp: call_sink_def split: option.splits)

lemmas io_Inr = bnd_Inr lift_Inr return_Inr call_sink_Inr

lemma add_hostvars_loop_trace:
  "add_hostvars_loop w hostvars hosts log = (Inr u, L) \<Longrightarrow>
   L = log @ map (\<lambda>host. Sink (PopulateHostVars [host] (item hostvars host))) hosts"
  by (induction hosts arbitrary: log) (fastforce simp: io_Inr item_def)+

lemma add_hostvars_trace:
  "add_hostvars w d log = (Inr u, L) \<Longrightarrow> L = log @ hostvars_pass d"
  by (auto simp: add_hostvars_def io_Inr hostvars_pass_def item_def elems_def
           dest!: add_hostvars_loop_trace)

lemma add_host_loop_trace:
  "add_host_loop w grp hosts log = (Inr u, L) \<Longrightarrow>
   L = log @ map (\<lambda>host. Sink (AddHost host grp)) hosts"
  by (induction hosts arbitrary: log) (fastforce simp: io_Inr)+

lemma add_child_loop_trace:
  "add_child_loop w grp children log = (Inr u, L) \<Longrightarrow>
   L = log @ map (\<lambda>child. Sink (AddChild grp child)) children"
  by (induction children arbitrary: log) (fastforce simp: io_Inr)+

lemma members_if_other:
  "mode \<noteq> wanted \<Longrightarrow> members_if groups grp mode wanted body = return ()"
  by (simp add: members_if_def)

lemma members_if_trace:
  assumes "members_if groups grp mode mode body log = (Inr u, L)"
    and "\<And>xs log L. body xs log = (Inr (), L) \<Longrightarrow> L = log @ map F xs"
  shows "L = log @ map F (listed groups grp mode)"
  using assms(1)
  by (auto simp: members_if_def io_Inr listed_def item_def keys_of_def elems_def
           split: if_splits dest!: assms(2))

lemma add_groups_loop_hosts_trace:
  "add_groups_loop w groups ''hosts'' gs log = (Inr u, L) \<Longrightarrow>
   L = log @ concat (map (\<lambda>grp. Sink (AddGroup grp) #
                           map (\<lambda>host. Sink (AddHost host grp)) (listed groups grp ''hosts''))
                      (filter (\<lambda>grp. grp \<noteq> PStr ''_meta'') gs))"
proof (induction gs arbitrary: log)
  case Nil
  then show ?case by (simp add: io_Inr)
next
  case (Cons grp gs)
  show ?case
  proof (cases "grp = PStr ''_meta''")
    case True
    with Cons show ?thesis by simp
  next
    case False
    from Cons.prems False obtain l1 l2 where
      l1: "members_if groups grp ''hosts'' ''hosts'' (add_host_loop w grp) (log @ [Sink (AddGroup grp)])
             = (Inr (), l1)"
      and l2: "add_groups_loop w groups ''hosts'' gs l1 = (Inr u, L)"
      by (auto simp: io_Inr members_if_other)
    from members_if_trace [OF l1 add_host_loop_trace]
    have "l1 = log @ [Sink (AddGroup grp)] @ map (\<lambda>host. Sink (AddHost host grp)) (listed groups grp ''hosts'')"
      by simp
    with Cons.IH [OF l2] False show ?thesis by simp
  qed
qed

lemma add_groups_loop_children_trace:
  "add_groups_loop w groups ''children'' gs log = (Inr u, L) \<Longrightarrow>
   L = log @ concat (map (\<lambda>grp. Sink (AddGroup grp) #
                           map (\<lambda>child. Sink (AddChild grp child)) (listed groups grp ''children''))
                      (filter (\<lambda>grp. grp \<noteq> PStr ''_meta'') gs))"
proof (induction gs arbitrary: log)
  case Nil
  then show ?case by (simp add: io_Inr)
next
  case (Cons grp gs)
  show ?case
  proof (cases "grp = PStr ''_meta''")
    case True
    with Cons show ?thesis by simp
  next
    case False
    from Cons.prems False obtain l1 l2 where
      l1: "members_if groups grp ''children'' ''children'' (add_child_loop w grp) (log @ [Sink (AddGroup grp)])
             = (Inr (), l1)"
      and l2: "add_groups_loop w groups ''children'' gs l1 = (Inr u, L)"
      by (auto simp: io_Inr members_if_other)
    from members_if_trace [OF l1 add_child_loop_trace]
    have "l1 = log @ [Sink (AddGroup grp)] @ map (\<lambda>child. Sink (AddChild grp child)) (listed groups grp ''children'')"
      by simp
    with Cons.IH [OF l2] False show ?thesis by simp
  qed
qed

lemma add_groups_hosts_trace:
  "add_groups w d ''hosts'' log = (Inr u, L) \<Longrightarrow> L = log @ hosts_pass d"
  by (auto simp: add_groups_def io_Inr hosts_pass_def groups_of_def elems_def
           dest!: add_groups_loop_hosts_trace)

lemma add_groups_children_trace:
  "add_groups w d ''children'' log = (Inr u, L) \<Longrightarrow> L = log @ children_pass d"
  by (auto simp: add_groups_def io_Inr children_pass_def groups_of_def elems_def
           dest!: add_groups_loop_children_trace)

lemma populate_dict: "populate w d log = (Inr u, L) \<Longrightarrow> \<exists>kvs. d = PDict kvs"
  by (cases d)
     (auto simp: populate_def add_hostvars_def io_Inr py_getitem_def as_index_def lift_def
           split: if_splits)

lemma populate_trace:
  "populate w d log = (Inr u, L) \<Longrightarrow>
   d \<noteq> PNone \<and> L = log @ hostvars_pass d @ hosts_pass d @ children_pass d"
  by (auto simp: populate_def io_Inr split: if_splits
           dest!: add_hostvars_trace add_groups_hosts_trace add_groups_children_trace)

section \<open>The runs of \<^verbatim>\<open>parse\<close>\<close>

lemma emitsD: "emits P m \<Longrightarrow> \<exists>es. snd (m log) = log @ es \<and> list_all P es"
  by (simp add: emits_def)

lemma snd_bnd:
  "snd (bnd m f log) = (case m log of (Inl e, log') \<Rightarrow> log' | (Inr x, log') \<Rightarrow> snd (f x log'))"
  by (simp add: bnd_def split: prod.splits sum.splits)

lemma populate_shape:
  "\<exists>hv hp cp. snd (populate w d log) = log @ hv @ hp @ cp \<and> list_all is_hostvars hv \<and>
     list_all (in_pass ''hosts'') hp \<and> list_all (in_pass ''children'') cp"
proof (cases "d = PNone")
  case True
  then have "snd (populate w d log) = log @ [] @ [] @ []"
    by (simp add: populate_def lift_def)
  then show ?thesis
    by (intro exI [of _ "[]"]) simp
next
  case False
  obtain r1 l1 where m1: "add_hostvars w d log = (r1, l1)" by (cases "add_hostvars w d log")
  from emitsD [OF emits_add_hostvars, of w d log] m1
  obtain hv where hv: "l1 = log @ hv" "list_all is_hostvars hv" by auto
  obtain r2 l2 where m2: "add_groups w d ''hosts'' l1 = (r2, l2)"
    by (cases "add_groups w d ''hosts'' l1")
  from emitsD [OF emits_add_groups, of w d "''hosts''" l1] m2
  obtain hp where hp: "l2 = l1 @ hp" "list_all (in_pass ''hosts'') hp" by auto
  obtain r3 l3 where m3: "add_groups w d ''children'' l2 = (r3, l3)"
    by (cases "add_groups w d ''children'' l2")
  from emitsD [OF emits_add_groups, of w d "''children''" l2] m3
  obtain cp where cp: "l3 = l2 @ cp" "list_all (in_pass ''children'') cp" by auto
  have "snd (populate w d log) =
          (case r1 of Inl e \<Rightarrow> l1 | Inr _ \<Rightarrow> (case r2 of Inl e \<Rightarrow> l2 | Inr _ \<Rightarrow> l3))"
    using False m1 m2 m3 by (simp add: populate_def snd_bnd split: sum.splits)
  then consider "snd (populate w d log) = log @ hv @ [] @ []"
    | "snd (populate w d log) = log @ hv @ hp @ []"
    | "snd (populate w d log) = log @ hv @ hp @ cp"
    using hv hp cp by (auto split: sum.splits)
  then show ?thesis
  proof cases
    case 1
    then show ?thesis
      by (intro exI [of _ hv] exI [of _ "[]"]) (simp add: hv)
  next
    case 2
    then show ?thesis
      by (intro exI [of _ hv] exI [of _ hp] exI [of _ "[]"]) (simp add: hv hp)
  next
    case 3
    then show ?thesis
      by (intro exI [of _ hv] exI [of _ hp] exI [of _ cp]) (simp add: hv hp cp)
  qed
qed

lemma fetch_requests:
  "fetch w self log = (r, L) \<Longrightarrow> \<exists>reqs. L = log @ reqs \<and> list_all is_request reqs"
  using emitsD [OF emits_fetch, of w self log] by auto

lemma parse_without_url:
  "url (resolve w self) = None \<Longrightarrow>
   parse w self = lift (Inl (AnsibleError url_missing_message))"
  by (simp add: parse_def Let_def)

lemma parse_with_url:
  "url (resolve w self) \<noteq> None \<Longrightarrow>
   parse w self =
     bnd (fetch w (resolve w self)) (\<lambda>self.
     bnd (populate w (data self)) (\<lambda>_. return ((), data self)))"
  by (auto simp: parse_def Let_def)

lemma parse_shape:
  "\<exists>reqs hv hp cp. snd (parse w self []) = reqs @ hv @ hp @ cp \<and> list_all is_request reqs \<and>
     list_all is_hostvars hv \<and> list_all (in_pass ''hosts'') hp \<and> list_all (in_pass ''children'') cp"
proof (cases "url (resolve w self) = None")
  case True
  then have "snd (parse w self []) = [] @ [] @ [] @ []"
    by (simp add: parse_without_url lift_def)
  then show ?thesis
    by (intro exI [of _ "[]"]) simp
next
  case False
  obtain r reqs where f: "fetch w (resolve w self) [] = (r, reqs)"
    by (cases "fetch w (resolve w self) []")
  from fetch_requests [OF f] have reqs: "list_all is_request reqs" by simp
  show ?thesis
  proof (cases r)
    case (Inl e)
    with f have "snd (parse w self []) = reqs @ [] @ [] @ []"
      by (simp add: parse_with_url [OF False] snd_bnd)
    with reqs show ?thesis
      by (intro exI [of _ reqs] exI [of _ "[]"]) simp
  next
    case (Inr self')
    with f have "snd (parse w self []) = snd (populate w (data self') reqs)"
      by (simp add: parse_with_url [OF False] snd_bnd return_def split: prod.splits sum.splits)
    with populate_shape [of w "data self'" reqs] reqs show ?thesis by auto
  qed
qed

lemma parse_success:
  assumes "parse w self [] = (Inr ((), d), L)"
  shows "\<exists>reqs. list_all is_request reqs \<and> (\<exists>kvs. d = PDict kvs) \<and>
           L = reqs @ hostvars_pass d @ hosts_pass d @ children_pass d"
proof -
  have u: "url (resolve w self) \<noteq> None"
  proof
    assume "url (resolve w self) = None"
    from parse_without_url [OF this] assms show False
      by (simp add: lift_def)
  qed
  from assms obtain self' reqs where
    f: "fetch w (resolve w self) [] = (Inr self', reqs)" and
    p: "populate w (data self') reqs = (Inr (), L)" and d: "d = data self'"
    by (auto simp: parse_with_url [OF u] io_Inr)
  from fetch_requests [OF f] have "list_all is_request reqs" by simp
  with populate_trace [OF p] populate_dict [OF p] d show ?thesis by auto
qed


section \<open>Validation of a response\<close>

lemma str_contains_iff: "str_contains needle hay \<longleftrightarrow> (\<exists>pre post. hay = pre @ needle @ post)"
proof (induction hay)
  case Nil
  show ?case by auto
next
  case (Cons c cs)
  show ?case
  proof
    assume "str_contains needle (c # cs)"
    then consider "prefix needle (c # cs)" | "str_contains needle cs" by auto
    then show "\<exists>pre post. c # cs = pre @ needle @ post"
    proof cases
      case 1
      then obtain post where "c # cs = needle @ post" by (auto simp: prefix_def)
      then have "c # cs = [] @ needle @ post" by simp
      then show ?thesis by blast
    next
      case 2
      with Cons obtain pre post where "cs = pre @ needle @ post" by auto
      then have "c # cs = (c # pre) @ needle @ post" by simp
      then show ?thesis by blast
    qed
  next
    assume "\<exists>pre post. c # cs = pre @ needle @ post"
    then obtain pre post where e: "c # cs = pre @ needle @ post" by blast
    show "str_contains needle (c # cs)"
    proof (cases pre)
      case Nil
      with e have "prefix needle (c # cs)" by (simp add: prefix_def)
      then show ?thesis by simp
    next
      case (Cons p ps)
      with e have "cs = ps @ needle @ post" by simp
      with Cons.IH have "str_contains needle cs" by blast
      then show ?thesis by simp
    qed
  qed
qed

lemma is_valid_content_no_header:
  "headers r ''Content-Type'' = None \<Longrightarrow> is_valid_content self r = Inl KeyError"
  by (simp add: is_valid_content_def)

lemma is_valid_content_status:
  assumes "headers r ''Content-Type'' = Some content_type" and "status_code r \<ge> 300"
  shows "is_valid_content self r = Inl (AnsibleError (status_message (status_code r)))"
    and "checked_json self r = Inl (AnsibleError (status_message (status_code r)))"
    and "\<exists>pre post. status_message (status_code r) = pre @ str_int (status_code r) @ post"
proof -
  show v: "is_valid_content self r = Inl (AnsibleError (status_message (status_code r)))"
    using assms by (simp add: is_valid_content_def)
  then show "checked_json self r = Inl (AnsibleError (status_message (status_code r)))"
    by (simp add: checked_json_def)
  show "\<exists>pre post. status_message (status_code r) = pre @ str_int (status_code r) @ post"
    unfolding status_message_def by (metis append.assoc)
qed

section \<open>Documents that cannot be populated\<close>

lemma py_getitem_str_key:
  "py_getitem v (PStr key) =
     (if has_key v key then Inr (item v (PStr key))
      else if is_object v then Inl KeyError else Inl TypeError)"
  by (cases v) (auto simp: py_getitem_def has_key_def is_object_def item_def as_index_def)

lemma add_hostvars_lookup_error:
  assumes "\<not> has_key d ''_meta'' \<or> \<not> has_key (item d (PStr ''_meta'')) ''hostvars''"
  shows "add_hostvars w d log =
           (Inl (if is_object (if has_key d ''_meta'' then item d (PStr ''_meta'') else d)
                 then KeyError else TypeError), log)"
  using assms by (auto simp: add_hostvars_def bnd_def lift_def py_getitem_str_key)

lemma populate_lookup_error:
  assumes "d \<noteq> PNone"
    and "\<not> has_key d ''_meta'' \<or> \<not> has_key (item d (PStr ''_meta'')) ''hostvars''"
  shows "populate w d log =
           (Inl (if is_object (if has_key d ''_meta'' then item d (PStr ''_meta'') else d)
                 then KeyError else TypeError), log)"
  using assms(1) by (simp add: populate_def bnd_def add_hostvars_lookup_error [OF assms(2)])

text \<open>A null document counts as no data.\<close>

lemma populate_null: "populate w PNone log = (Inl (AnsibleParserError no_data_message), log)"
  by (simp add: populate_def lift_def)

lemma no_meta_fetch:
  "fetch no_meta_world (resolve no_meta_world (init no_meta_world)) [] =
     (Inr ((resolve no_meta_world (init no_meta_world))\<lparr>data := no_meta_doc\<rparr>),
      [Request (Get (Some ''https://example.gitlab.io/example_page/inventory.json'') None)])"
  by code_simp

section \<open>Counting the registrations of a group\<close>

lemma count_pass:
  assumes "\<And>g x. F g x \<noteq> Sink (AddGroup grp)"
  shows "count_list (concat (map (\<lambda>g. Sink (AddGroup g) # map (F g) (xs g)) gs)) (Sink (AddGroup grp))
           = count_list gs grp"
proof (induction gs)
  case Nil
  show ?case by simp
next
  case (Cons g gs)
  have "Sink (AddGroup grp) \<notin> set (map (F g) (xs g))"
  proof
    assume "Sink (AddGroup grp) \<in> set (map (F g) (xs g))"
    then obtain x where "F g x = Sink (AddGroup grp)" by auto
    with assms show False by blast
  qed
  then have "count_list (map (F g) (xs g)) (Sink (AddGroup grp)) = 0"
    by (rule count_notin)
  with Cons show ?case by auto
qed

lemma count_distinct: "distinct xs \<Longrightarrow> x \<in> set xs \<Longrightarrow> count_list xs x = 1"
  by (induction xs) auto

lemma count_hosts_pass:
  "count_list (hosts_pass d) (Sink (AddGroup grp)) = count_list (groups_of d) grp"
  unfolding hosts_pass_def by (rule count_pass) simp

lemma count_children_pass:
  "count_list (children_pass d) (Sink (AddGroup grp)) = count_list (groups_of d) grp"
  unfolding children_pass_def by (rule count_pass) simp

lemma count_requests: "list_all is_request reqs \<Longrightarrow> count_list reqs (Sink c) = 0"
  by (induction reqs) auto

lemma count_hostvars_pass: "count_list (hostvars_pass d) (Sink (AddGroup grp)) = 0"
  by (rule count_notin) (auto simp: hostvars_pass_def Let_def)

lemma example_keys:
  "keys_of example_doc = [PStr ''_meta'', PStr ''g1'', PStr ''g2'']"
  by (simp add: keys_of_def example_doc_def)

section \<open>Calls that name a group\<close>

lemma fetch_no_branch:
  "auth_method self \<notin> {None, Some ''None'', Some ''basic'', Some ''gitlab''} \<Longrightarrow>
   fetch w self = return self"
  by (auto simp: fetch_def bnd_def return_def)

lemma in_pass_not_meta: "in_pass mode e \<Longrightarrow> \<not> names_group (PStr ''_meta'') e"
  by (cases "(mode, e)" rule: in_pass.cases) auto

lemma is_request_not_meta: "is_request e \<Longrightarrow> \<not> names_group (PStr ''_meta'') e"
  by (cases e) auto

lemma is_hostvars_not_meta: "is_hostvars e \<Longrightarrow> \<not> names_group (PStr ''_meta'') e"
  by (cases e rule: is_hostvars.cases) auto

section \<open>Well-formed documents are populated\<close>

lemma returns_return: "returns (return ())"
  by (simp add: returns_def return_def)

lemma bnd_lift_Inr: "bnd (lift (Inr v)) f = f v"
  by (simp add: bnd_def lift_def)

lemma returns_bnd:
  assumes "returns m" and "returns (f ())"
  shows "returns (bnd m f)"
  unfolding returns_def
proof
  fix log
  obtain r log' where m: "m log = (r, log')" by (cases "m log")
  with assms(1) have "r = Inr ()" by (auto simp: returns_def dest: spec [of _ log])
  with m have "bnd m f log = f () log'" by (simp add: bnd_def)
  with assms(2) show "fst (bnd m f log) = Inr ()" by (simp add: returns_def)
qed

lemma returns_call_sink: "(\<And>log. sink w log c = None) \<Longrightarrow> returns (call_sink w c)"
  by (simp add: returns_def call_sink_def)

lemma py_getitem_dict:
  "hashable k \<Longrightarrow> map_of kvs k = Some v \<Longrightarrow> py_getitem (PDict kvs) k = Inr v"
  by (cases k) (auto simp: py_getitem_def hashable_def)

lemma returns_add_hostvars_loop:
  assumes "\<And>log c. sink w log c = None"
    and "list_all hashable hosts" and "set hosts \<subseteq> fst ` set hv"
  shows "returns (add_hostvars_loop w (PDict hv) hosts)"
  using assms(2,3)
proof (induction hosts)
  case Nil
  show ?case by (simp add: returns_return)
next
  case (Cons host rest)
  from Cons.prems obtain b where "(host, b) \<in> set hv" by auto
  from weak_map_of_SomeI [OF this] obtain vars where "map_of hv host = Some vars" by blast
  with Cons.prems have "py_getitem (PDict hv) host = Inr vars"
    by (simp add: py_getitem_dict)
  with Cons assms(1) show ?case
    by (simp add: bnd_lift_Inr returns_bnd returns_call_sink)
qed

lemma wf_hostvarsD:
  assumes "wf_hostvars kvs"
  obtains m hv where "map_of kvs (PStr ''_meta'') = Some (PDict m)"
    and "map_of m (PStr ''hostvars'') = Some (PDict hv)"
    and "list_all hashable (map fst hv)"
proof -
  from assms obtain mv where mv: "map_of kvs (PStr ''_meta'') = Some mv"
    by (cases "map_of kvs (PStr ''_meta'')") (simp_all add: wf_hostvars_def)
  with assms obtain m where m: "mv = PDict m"
    by (cases mv) (simp_all add: wf_hostvars_def)
  from assms mv m obtain hvv where hvv: "map_of m (PStr ''hostvars'') = Some hvv"
    by (cases "map_of m (PStr ''hostvars'')") (simp_all add: wf_hostvars_def)
  with assms mv m obtain hv where hv: "hvv = PDict hv"
    by (cases hvv) (simp_all add: wf_hostvars_def)
  from assms mv m hvv hv have "list_all hashable (map fst hv)"
    by (simp add: wf_hostvars_def)
  with mv m hvv hv that show thesis by simp
qed

lemma wf_inventoryD:
  assumes "wf_inventory d"
  obtains kvs where "d = PDict kvs" and "wf_hostvars kvs" and "distinct (map fst kvs)"
    and "list_all (\<lambda>(grp, v). hashable grp \<and> (grp = PStr ''_meta'' \<or> wf_group v)) kvs"
  using assms by (cases d) (simp_all add: wf_inventory_def)

lemma wf_groupD:
  assumes "wf_group v"
  obtains entry where "v = PDict entry" and "list_or_absent entry ''hosts''"
    and "list_or_absent entry ''children''"
  using assms by (cases v) (simp_all add: wf_group_def)

lemma returns_add_hostvars:
  assumes "\<And>log c. sink w log c = None" and "wf_hostvars kvs"
  shows "returns (add_hostvars w (PDict kvs))"
proof -
  from wf_hostvarsD [OF assms(2)] obtain m hv where
    m: "map_of kvs (PStr ''_meta'') = Some (PDict m)" and
    hv: "map_of m (PStr ''hostvars'') = Some (PDict hv)" and
    h: "list_all hashable (map fst hv)"
    by blast
  have g1: "py_getitem (PDict kvs) (PStr ''_meta'') = Inr (PDict m)"
    by (rule py_getitem_dict [OF _ m]) (simp add: hashable_def)
  have g2: "py_getitem (PDict m) (PStr ''hostvars'') = Inr (PDict hv)"
    by (rule py_getitem_dict [OF _ hv]) (simp add: hashable_def)
  have "returns (add_hostvars_loop w (PDict hv) (map fst hv))"
    by (rule returns_add_hostvars_loop [OF assms(1) h]) simp
  then show ?thesis
    by (simp add: add_hostvars_def g1 g2 bnd_lift_Inr)
qed

lemma returns_add_host_loop:
  "(\<And>log c. sink w log c = None) \<Longrightarrow> returns (add_host_loop w grp hosts)"
  by (induction hosts) (simp_all add: returns_return returns_bnd returns_call_sink)

lemma returns_add_child_loop:
  "(\<And>log c. sink w log c = None) \<Longrightarrow> returns (add_child_loop w grp children)"
  by (induction children) (simp_all add: returns_return returns_bnd returns_call_sink)

lemma returns_members_if:
  assumes "py_getitem groups grp = Inr (PDict entry)"
    and "list_or_absent entry wanted" and "\<And>xs. returns (body xs)"
  shows "returns (members_if groups grp mode wanted body)"
proof (cases "mode = wanted \<and> PStr wanted \<in> set (map fst entry)")
  case False
  then show ?thesis
    by (auto simp: members_if_def assms(1) bnd_lift_Inr returns_return)
next
  case True
  then obtain b where "(PStr wanted, b) \<in> set entry" by auto
  from weak_map_of_SomeI [OF this] obtain v where "map_of entry (PStr wanted) = Some v" by blast
  with assms(2) obtain xs where "v = PList xs"
    by (cases v) (simp_all add: list_or_absent_def)
  with \<open>map_of entry (PStr wanted) = Some v\<close>
  have "py_getitem (PDict entry) (PStr wanted) = Inr (PList xs)"
    by (simp add: py_getitem_dict hashable_def)
  with True show ?thesis
    by (simp add: members_if_def assms(1,3) bnd_lift_Inr)
qed

lemma returns_add_groups_loop:
  assumes "\<And>log c. sink w log c = None"
    and "\<And>grp. grp \<in> set gs \<Longrightarrow> grp \<noteq> PStr ''_meta'' \<Longrightarrow>
           \<exists>entry. py_getitem groups grp = Inr (PDict entry) \<and> wf_group (PDict entry)"
  shows "returns (add_groups_loop w groups mode gs)"
  using assms(2)
proof (induction gs)
  case Nil
  show ?case by (simp add: returns_return)
next
  case (Cons grp gs)
  have rest: "returns (add_groups_loop w groups mode gs)"
    using Cons by simp
  show ?case
  proof (cases "grp = PStr ''_meta''")
    case True
    with rest show ?thesis by simp
  next
    case False
    with Cons.prems obtain entry where
      e: "py_getitem groups grp = Inr (PDict entry)" and wf: "wf_group (PDict entry)"
      by (meson list.set_intros(1))
    from wf have h: "list_or_absent entry ''hosts''" and c: "list_or_absent entry ''children''"
      by (simp_all add: wf_group_def)
    have "returns (members_if groups grp mode ''hosts'' (add_host_loop w grp))"
      by (rule returns_members_if [OF e h]) (rule returns_add_host_loop [OF assms(1)])
    moreover have "returns (members_if groups grp mode ''children'' (add_child_loop w grp))"
      by (rule returns_members_if [OF e c]) (rule returns_add_child_loop [OF assms(1)])
    ultimately show ?thesis
      using False rest assms(1) by (simp add: returns_bnd returns_call_sink)
  qed
qed

lemma returns_add_groups:
  assumes "\<And>log c. sink w log c = None" and "wf_inventory d"
  shows "returns (add_groups w d mode)"
proof -
  from wf_inventoryD [OF assms(2)] obtain kvs where d: "d = PDict kvs"
    and dist: "distinct (map fst kvs)"
    and g: "list_all (\<lambda>(grp, v). hashable grp \<and> (grp = PStr ''_meta'' \<or> wf_group v)) kvs"
    by blast
  have "returns (add_groups_loop w d mode (map fst kvs))"
  proof (rule returns_add_groups_loop [OF assms(1)])
    fix grp assume "grp \<in> set (map fst kvs)" and nm: "grp \<noteq> PStr ''_meta''"
    then obtain v where v: "(grp, v) \<in> set kvs" by auto
    with dist have "map_of kvs grp = Some v" by simp
    moreover from g v nm have "hashable grp" and wf: "wf_group v" by (auto simp: list_all_iff)
    ultimately have "py_getitem d grp = Inr v" by (simp add: d py_getitem_dict)
    moreover from wf_groupD [OF wf] obtain entry where "v = PDict entry"
      by blast
    ultimately show "\<exists>entry. py_getitem d grp = Inr (PDict entry) \<and> wf_group (PDict entry)"
      using wf by auto
  qed
  then show ?thesis by (simp add: add_groups_def d bnd_lift_Inr)
qed

lemma populate_returns:
  assumes "\<And>log c. sink w log c = None" and "wf_inventory d"
  shows "populate w d log = (Inr (), log @ hostvars_pass d @ hosts_pass d @ children_pass d)"
proof -
  from wf_inventoryD [OF assms(2)] obtain kvs where d: "d = PDict kvs" and hv: "wf_hostvars kvs"
    by blast
  have "returns (populate w d)"
    using returns_add_hostvars [OF assms(1) hv] returns_add_groups [OF assms]
    by (simp add: populate_def d returns_bnd)
  then obtain L where L: "populate w d log = (Inr (), L)"
    by (cases "populate w d log") (auto simp: returns_def dest: spec [of _ log])
  from populate_trace [OF L] L show ?thesis by simp
qed

lemma example_doc_wf: "wf_inventory example_doc"
  by (simp add: wf_inventory_def example_doc_def wf_hostvars_def hashable_def wf_group_def
        list_or_absent_def)

text \<open>A run on the unauthenticated path that returns: the url is known, the server
  answers with a well-formed document and the inventory accepts every call.\<close>

lemma get_generic_page_checked:
  "send w log (generic_request self) = Inr r \<Longrightarrow>
   get_generic_page w self log = (checked_json self r, log @ [Request (generic_request self)])"
  by (simp add: get_generic_page_def bnd_def request_def lift_def split: sum.splits)

lemma fetch_generic:
  assumes "auth_method self \<in> {None, Some ''None'', Some ''basic''}"
    and "send w log (generic_request self) = Inr r"
    and "checked_json self r = Inr d"
  shows "fetch w self log = (Inr (self\<lparr>data := d\<rparr>), log @ [Request (generic_request self)])"
proof -
  have "auth_method (self\<lparr>data := d\<rparr>) \<noteq> Some ''gitlab''"
    using assms(1) by auto
  then show ?thesis
    using assms(1) by (simp add: fetch_def bnd_def return_def get_generic_page_checked [OF assms(2)] assms(3))
qed

lemma parse_returns:
  assumes "url (resolve w self) \<noteq> None"
    and "auth_method (resolve w self) \<in> {None, Some ''None'', Some ''basic''}"
    and "send w [] (generic_request (resolve w self)) = Inr r"
    and "checked_json (resolve w self) r = Inr d"
    and "wf_inventory d"
    and "\<And>log c. sink w log c = None"
  shows "parse w self [] =
           (Inr ((), d),
            Request (generic_request (resolve w self)) #
              hostvars_pass d @ hosts_pass d @ children_pass d)"
  by (simp add: parse_with_url [OF assms(1)] bnd_def return_def
        fetch_generic [OF assms(2,3,4)] populate_returns [OF assms(6,5)])

section \<open>The properties of the specification\<close>

lemma triples_member:
  "(sec, opt, val) \<in> set (triples secs) \<longleftrightarrow>
     (\<exists>opts. (sec, opts) \<in> set secs \<and> (opt, val) \<in> set opts)"
  by (auto simp: triples_def)

lemma example_ini_triples:
  "triples example_ini = [(PStr ''s'', PStr ''o'', PStr ''v''), (PStr ''s'', PStr ''n'', PInt 5)]"
  by (simp add: triples_def example_ini_def)

lemma example_ini_records:
  "dict2ini (nested_dict example_ini) True =
     Inr [ini_record (PStr ''s'') (PStr ''o'') (PStr ''\"v\"''),
          ini_record (PStr ''s'') (PStr ''n'') (PInt 5)]"
  by (simp add: dict2ini_def nested_dict_def example_ini_def)

lemma example_run:
  "parse example_world (init example_world) [] = (Inr ((), example_doc), example_trace)"
  by code_simp

lemma hostvars_pass_kind: "list_all is_hostvars (hostvars_pass d)"
  by (simp add: hostvars_pass_def Let_def list_all_iff)

lemma hosts_pass_kind: "list_all (in_pass ''hosts'') (hosts_pass d)"
  by (auto simp: hosts_pass_def groups_of_def list_all_iff)

lemma children_pass_kind: "list_all (in_pass ''children'') (children_pass d)"
  by (auto simp: children_pass_def groups_of_def list_all_iff)

lemma ini_record_fields:
  "py_keys (ini_record sec opt val) = Inr [PStr ''section'', PStr ''option'', PStr ''value'']"
  "py_getitem (ini_record sec opt val) (PStr ''section'') = Inr sec"
  "py_getitem (ini_record sec opt val) (PStr ''option'') = Inr opt"
  "py_getitem (ini_record sec opt val) (PStr ''value'') = Inr val"
  by (simp_all add: ini_record_def py_getitem_def)

lemma quote_value_cases:
  "quote_value quote val =
     (case val of PStr s \<Rightarrow> if quote then PStr (''\"'' @ s @ ''\"'') else val | _ \<Rightarrow> val)"
  by (cases val) simp_all

lemma parse_after_fetch:
  assumes "url (resolve w self) \<noteq> None"
    and "fetch w (resolve w self) [] = (Inr self', reqs)"
  shows "parse w self [] =
           (case populate w (data self') reqs of
              (Inl e, L) \<Rightarrow> (Inl e, L)
            | (Inr u, L) \<Rightarrow> (Inr ((), data self'), L))"
  by (simp add: parse_with_url [OF assms(1)] bnd_def assms(2) return_def
        split: prod.splits sum.splits)

lemma parse_after_fetch_log:
  assumes "url (resolve w self) \<noteq> None"
    and "fetch w (resolve w self) [] = (Inr self', reqs)"
  shows "snd (parse w self []) = snd (populate w (data self') reqs)"
  by (simp add: parse_after_fetch [OF assms] split: prod.splits sum.splits)

lemma parse_after_fetch_returns:
  assumes "url (resolve w self) \<noteq> None"
    and "fetch w (resolve w self) [] = (Inr self', reqs)"
    and "fst (parse w self []) = Inr r"
  shows "r = ((), data self') \<and>
         snd (parse w self []) =
           reqs @ hostvars_pass (data self') @ hosts_pass (data self') @
             children_pass (data self')"
proof -
  obtain res L where p: "populate w (data self') reqs = (res, L)"
    by (cases "populate w (data self') reqs")
  with assms(3) obtain u where res: "res = Inr u" and r: "r = ((), data self')"
    by (cases res) (simp_all add: parse_after_fetch [OF assms(1,2)])
  from p res have "populate w (data self') reqs = (Inr u, L)" by simp
  from populate_trace [OF this] have
    "L = reqs @ hostvars_pass (data self') @ hosts_pass (data self') @ children_pass (data self')"
    by simp
  with p r show ?thesis by (simp add: parse_after_fetch_log [OF assms(1,2)])
qed

lemma parse_after_fetch_wf:
  assumes "url (resolve w self) \<noteq> None"
    and "fetch w (resolve w self) [] = (Inr self', reqs)"
    and "wf_inventory (data self')" and "\<And>log c. sink w log c = None"
  shows "parse w self [] =
           (Inr ((), data self'),
            reqs @ hostvars_pass (data self') @ hosts_pass (data self') @
              children_pass (data self'))"
  by (simp add: parse_after_fetch [OF assms(1,2)] populate_returns [OF assms(4,3)])

lemma example_fetch:
  "fetch example_world (resolve example_world (init example_world)) [] =
     (Inr ((resolve example_world (init example_world))\<lparr>data := example_doc\<rparr>),
      [Request (Get (Some ''https://example.gitlab.io/example_page/inventory.json'') None)])"
  by code_simp

lemma example_url: "url (resolve example_world (init example_world)) \<noteq> None"
  by (simp add: resolve_def init_def example_world_def)

lemma example_sink: "sink example_world log c = None"
  by (simp add: example_world_def)

lemma example_passes:
  "hostvars_pass example_doc =
     [Sink (PopulateHostVars [PStr ''h1''] (PDict [(PStr ''a'', PInt 1)]))]"
  "hosts_pass example_doc =
     [Sink (AddGroup (PStr ''g1'')), Sink (AddHost (PStr ''h1'') (PStr ''g1'')),
      Sink (AddGroup (PStr ''g2''))]"
  "children_pass example_doc =
     [Sink (AddGroup (PStr ''g1'')), Sink (AddGroup (PStr ''g2'')),
      Sink (AddChild (PStr ''g2'') (PStr ''g1''))]"
  by code_simp+

text \<open>
  C1. Let \<open>fetch\<close> have obtained a document after the requests \<open>reqs\<close>. The log of
  \<open>parse\<close> is then \<open>reqs\<close>, a block of host variable registrations, a block of group
  registrations and host memberships, and a block of group registrations and child
  memberships, in this order, also when an exception cuts the run short: every
  registration of host variables comes before every group operation and every \<open>hosts\<close>
  assignment before every \<open>children\<close> assignment. When the run returns, it returns the
  fetched document and the three blocks are the three full passes over it: one
  registration per host under \<^verbatim>\<open>_meta.hostvars\<close>, one pass over all keys but \<^verbatim>\<open>_meta\<close>
  adding the \<open>hosts\<close> entries, and a second pass over the same keys adding the
  \<open>children\<close> entries. For a well-formed document and an inventory that accepts every
  call the run does return, with exactly these calls.
\<close>

theorem parse_three_passes:
  assumes "url (resolve w self) \<noteq> None"
    and "fetch w (resolve w self) [] = (Inr self', reqs)"
  shows "list_all is_request reqs \<and>
         (\<exists>hv hp cp.
            snd (parse w self []) = reqs @ hv @ hp @ cp \<and> list_all is_hostvars hv \<and>
            list_all (in_pass ''hosts'') hp \<and> list_all (in_pass ''children'') cp \<and>
            (\<forall>r. fst (parse w self []) = Inr r \<longrightarrow>
               r = ((), data self') \<and> hv = hostvars_pass (data self') \<and>
               hp = hosts_pass (data self') \<and> cp = children_pass (data self'))) \<and>
         (wf_inventory (data self') \<and> (\<forall>log c. sink w log c = None) \<longrightarrow>
            parse w self [] =
              (Inr ((), data self'),
               reqs @ hostvars_pass (data self') @ hosts_pass (data self') @
                 children_pass (data self')))"
proof (intro conjI)
  from fetch_requests [OF assms(2)] show "list_all is_request reqs" by simp
next
  show "\<exists>hv hp cp.
            snd (parse w self []) = reqs @ hv @ hp @ cp \<and> list_all is_hostvars hv \<and>
            list_all (in_pass ''hosts'') hp \<and> list_all (in_pass ''children'') cp \<and>
            (\<forall>r. fst (parse w self []) = Inr r \<longrightarrow>
               r = ((), data self') \<and> hv = hostvars_pass (data self') \<and>
               hp = hosts_pass (data self') \<and> cp = children_pass (data self'))"
  proof (cases "\<exists>r. fst (parse w self []) = Inr r")
    case True
    then obtain r where r: "fst (parse w self []) = Inr r" by blast
    from parse_after_fetch_returns [OF assms r] r show ?thesis
      by (intro exI [of _ "hostvars_pass (data self')"] exI [of _ "hosts_pass (data self')"]
            exI [of _ "children_pass (data self')"])
         (simp add: hostvars_pass_kind hosts_pass_kind children_pass_kind)
  next
    case False
    from populate_shape [of w "data self'" reqs] obtain hv hp cp where
      "snd (populate w (data self') reqs) = reqs @ hv @ hp @ cp" "list_all is_hostvars hv"
      "list_all (in_pass ''hosts'') hp" "list_all (in_pass ''children'') cp"
      by blast
    with False show ?thesis
      by (intro exI [of _ hv] exI [of _ hp] exI [of _ cp])
         (simp add: parse_after_fetch_log [OF assms])
  qed
next
  show "wf_inventory (data self') \<and> (\<forall>log c. sink w log c = None) \<longrightarrow>
            parse w self [] =
              (Inr ((), data self'),
               reqs @ hostvars_pass (data self') @ hosts_pass (data self') @
                 children_pass (data self'))"
    using parse_after_fetch_wf [OF assms] by blast
qed

theorem parse_three_passes_witness:
  "parse example_world (init example_world) [] =
     (Inr ((), example_doc),
      [Request (Get (Some ''https://example.gitlab.io/example_page/inventory.json'') None),
       Sink (PopulateHostVars [PStr ''h1''] (PDict [(PStr ''a'', PInt 1)])),
       Sink (AddGroup (PStr ''g1'')),
       Sink (AddHost (PStr ''h1'') (PStr ''g1'')),
       Sink (AddGroup (PStr ''g2'')),
       Sink (AddGroup (PStr ''g1'')),
       Sink (AddGroup (PStr ''g2'')),
       Sink (AddChild (PStr ''g2'') (PStr ''g1''))])"
  using parse_three_passes [OF example_url example_fetch]
  by (simp add: example_doc_wf example_sink example_passes)

text \<open>
  C2. For a mapping whose values are mappings, \<open>dict2ini\<close> returns one record per
  (section, option) pair, as many as the sections have options in total, in the order
  of the sections and within a section in the order of its options; nothing is merged
  and nothing is sorted. The record at a position has the keys \<open>section\<close>, \<open>option\<close> and
  \<open>value\<close>, and under them the section, the option and the (possibly quoted) value of
  the pair at that position.
\<close>

theorem dict2ini_records:
  "\<exists>recs. dict2ini (nested_dict secs) quote = Inr recs \<and>
     length recs = sum_list (map (\<lambda>(sec, opts). length opts) secs) \<and>
     length recs = length (triples secs) \<and>
     (\<forall>i < length recs.
        case triples secs ! i of (sec, opt, val) \<Rightarrow>
          py_keys (recs ! i) = Inr [PStr ''section'', PStr ''option'', PStr ''value''] \<and>
          py_getitem (recs ! i) (PStr ''section'') = Inr sec \<and>
          py_getitem (recs ! i) (PStr ''option'') = Inr opt \<and>
          py_getitem (recs ! i) (PStr ''value'') =
            Inr (case val of
                   PStr s \<Rightarrow> if quote then PStr (''\"'' @ s @ ''\"'') else val
                 | _ \<Rightarrow> val))"
proof -
  let ?recs = "map (\<lambda>(sec, opt, val). ini_record sec opt (quote_value quote val)) (triples secs)"
  have "dict2ini (nested_dict secs) quote = Inr ?recs"
    by (rule dict2ini_nested)
  moreover have "length ?recs = sum_list (map (\<lambda>(sec, opts). length opts) secs)"
    by (simp add: length_triples)
  moreover have "length ?recs = length (triples secs)"
    by simp
  moreover have "\<forall>i < length ?recs.
        case triples secs ! i of (sec, opt, val) \<Rightarrow>
          py_keys (?recs ! i) = Inr [PStr ''section'', PStr ''option'', PStr ''value''] \<and>
          py_getitem (?recs ! i) (PStr ''section'') = Inr sec \<and>
          py_getitem (?recs ! i) (PStr ''option'') = Inr opt \<and>
          py_getitem (?recs ! i) (PStr ''value'') =
            Inr (case val of
                   PStr s \<Rightarrow> if quote then PStr (''\"'' @ s @ ''\"'') else val
                 | _ \<Rightarrow> val)"
  proof (intro allI impI)
    fix i assume "i < length ?recs"
    then have i: "i < length (triples secs)" by simp
    obtain sec opt val where t: "triples secs ! i = (sec, opt, val)"
      by (cases "triples secs ! i") auto
    with i have "?recs ! i = ini_record sec opt (quote_value quote val)" by simp
    with t show "case triples secs ! i of (sec, opt, val) \<Rightarrow>
          py_keys (?recs ! i) = Inr [PStr ''section'', PStr ''option'', PStr ''value''] \<and>
          py_getitem (?recs ! i) (PStr ''section'') = Inr sec \<and>
          py_getitem (?recs ! i) (PStr ''option'') = Inr opt \<and>
          py_getitem (?recs ! i) (PStr ''value'') =
            Inr (case val of
                   PStr s \<Rightarrow> if quote then PStr (''\"'' @ s @ ''\"'') else val
                 | _ \<Rightarrow> val)"
      by (simp add: ini_record_fields quote_value_cases [symmetric])
  qed
  ultimately show ?thesis by blast
qed

theorem dict2ini_records_witness:
  "\<exists>recs. dict2ini (nested_dict example_ini) False = Inr recs \<and> length recs = 2 \<and>
     py_getitem (recs ! 0) (PStr ''section'') = Inr (PStr ''s'') \<and>
     py_getitem (recs ! 0) (PStr ''option'') = Inr (PStr ''o'') \<and>
     py_getitem (recs ! 0) (PStr ''value'') = Inr (PStr ''v'') \<and>
     py_getitem (recs ! 1) (PStr ''section'') = Inr (PStr ''s'') \<and>
     py_getitem (recs ! 1) (PStr ''option'') = Inr (PStr ''n'') \<and>
     py_getitem (recs ! 1) (PStr ''value'') = Inr (PInt 5)"
proof -
  from dict2ini_records [of example_ini False] obtain recs where
    r: "dict2ini (nested_dict example_ini) False = Inr recs" and
    n: "length recs = sum_list (map (\<lambda>(sec, opts). length opts) example_ini)" and
    f: "\<forall>i < length recs.
          case triples example_ini ! i of (sec, opt, val) \<Rightarrow>
            py_keys (recs ! i) = Inr [PStr ''section'', PStr ''option'', PStr ''value''] \<and>
            py_getitem (recs ! i) (PStr ''section'') = Inr sec \<and>
            py_getitem (recs ! i) (PStr ''option'') = Inr opt \<and>
            py_getitem (recs ! i) (PStr ''value'') =
              Inr (case val of
                     PStr s \<Rightarrow> if False then PStr (''\"'' @ s @ ''\"'') else val
                   | _ \<Rightarrow> val)"
    by blast
  from n have n2: "length recs = 2" by (simp add: example_ini_def)
  from f n2 have "case triples example_ini ! 0 of (sec, opt, val) \<Rightarrow>
            py_keys (recs ! 0) = Inr [PStr ''section'', PStr ''option'', PStr ''value''] \<and>
            py_getitem (recs ! 0) (PStr ''section'') = Inr sec \<and>
            py_getitem (recs ! 0) (PStr ''option'') = Inr opt \<and>
            py_getitem (recs ! 0) (PStr ''value'') =
              Inr (case val of
                     PStr s \<Rightarrow> if False then PStr (''\"'' @ s @ ''\"'') else val
                   | _ \<Rightarrow> val)"
    by simp
  then have r0: "py_getitem (recs ! 0) (PStr ''section'') = Inr (PStr ''s'') \<and>
     py_getitem (recs ! 0) (PStr ''option'') = Inr (PStr ''o'') \<and>
     py_getitem (recs ! 0) (PStr ''value'') = Inr (PStr ''v'')"
    by (simp add: example_ini_triples)
  from f n2 have "case triples example_ini ! 1 of (sec, opt, val) \<Rightarrow>
            py_keys (recs ! 1) = Inr [PStr ''section'', PStr ''option'', PStr ''value''] \<and>
            py_getitem (recs ! 1) (PStr ''section'') = Inr sec \<and>
            py_getitem (recs ! 1) (PStr ''option'') = Inr opt \<and>
            py_getitem (recs ! 1) (PStr ''value'') =
              Inr (case val of
                     PStr s \<Rightarrow> if False then PStr (''\"'' @ s @ ''\"'') else val
                   | _ \<Rightarrow> val)"
    by simp
  then have r1: "py_getitem (recs ! 1) (PStr ''section'') = Inr (PStr ''s'') \<and>
     py_getitem (recs ! 1) (PStr ''option'') = Inr (PStr ''n'') \<and>
     py_getitem (recs ! 1) (PStr ''value'') = Inr (PInt 5)"
    by (simp add: example_ini_triples)
  from r n2 r0 r1 show ?thesis by blast
qed

text \<open>
  C3. The value of the record made from a (section, option, value) triple is the value
  in double quotes when it is a string and \<open>quote\<close> is set, and the value itself when it
  is not a string or \<open>quote\<close> is not set.
\<close>

theorem dict2ini_value:
  assumes "dict2ini (nested_dict secs) quote = Inr recs"
    and "i < length (triples secs)"
    and "triples secs ! i = (sec, opt, val)"
  shows "(\<forall>s. quote \<and> val = PStr s \<longrightarrow>
            py_getitem (recs ! i) (PStr ''value'') = Inr (PStr (''\"'' @ s @ ''\"''))) \<and>
         (\<not> quote \<or> (\<forall>s. val \<noteq> PStr s) \<longrightarrow>
            py_getitem (recs ! i) (PStr ''value'') = Inr val)"
proof -
  from assms(1) have
    "recs = map (\<lambda>(sec, opt, val). ini_record sec opt (quote_value quote val)) (triples secs)"
    by (simp add: dict2ini_nested)
  with assms(2,3) have "recs ! i = ini_record sec opt (quote_value quote val)"
    by simp
  then have "py_getitem (recs ! i) (PStr ''value'') = Inr (quote_value quote val)"
    by (simp add: ini_record_def py_getitem_def)
  then show ?thesis
    by (cases val) auto
qed

theorem dict2ini_value_witness:
  "py_getitem (ini_record (PStr ''s'') (PStr ''o'') (PStr ''\"v\"'')) (PStr ''value'') =
     Inr (PStr ''\"v\"'') \<and>
   py_getitem (ini_record (PStr ''s'') (PStr ''n'') (PInt 5)) (PStr ''value'') = Inr (PInt 5)"
  using dict2ini_value [OF example_ini_records, of 0 "PStr ''s''" "PStr ''o''" "PStr ''v''"]
        dict2ini_value [OF example_ini_records, of 1 "PStr ''s''" "PStr ''n''" "PInt 5"]
  by (simp add: example_ini_triples)

text \<open>
  C4. A response whose status code is 300 or more is to be refused with an
  \<open>AnsibleError\<close> that names the code. The code does so when the response has a
  Content-Type header (\<open>is_valid_content_status\<close>). A 404 without that header is
  refused with the KeyError of the verbose line that formats the header, before the
  status code is looked at; nothing is parsed and nothing reaches the inventory.
\<close>

theorem status_without_content_type:
  "is_valid_content (init not_found_world) not_found_response = Inl KeyError \<and>
   parse not_found_world (init not_found_world) [] =
     (Inl KeyError,
      [Request (Get (Some ''https://example.gitlab.io/example_page/inventory.json'') None)])"
proof
  show "is_valid_content (init not_found_world) not_found_response = Inl KeyError"
    by (simp add: is_valid_content_def not_found_response_def)
  show "parse not_found_world (init not_found_world) [] =
     (Inl KeyError,
      [Request (Get (Some ''https://example.gitlab.io/example_page/inventory.json'') None)])"
    by code_simp
qed

text \<open>
  C5. A response with a status code below 300 and a Content-Type header: when the
  header does not contain \<open>json\<close>, validation and the page getter fail with an
  \<open>AnsibleParserError\<close>; when it does, validation succeeds and the page getter returns
  what \<^verbatim>\<open>r.json()\<close> returns.
\<close>

theorem content_type_decides:
  assumes "status_code r < 300" and "headers r ''Content-Type'' = Some content_type"
  shows "((\<nexists>pre post. content_type = pre @ ''json'' @ post) \<longrightarrow>
            is_valid_content self r = Inl (AnsibleParserError (not_json_message (url self))) \<and>
            checked_json self r = Inl (AnsibleParserError (not_json_message (url self)))) \<and>
         ((\<exists>pre post. content_type = pre @ ''json'' @ post) \<longrightarrow>
            is_valid_content self r = Inr True \<and> checked_json self r = json r)"
proof -
  have c: "str_contains ''json'' content_type \<longleftrightarrow>
             (\<exists>pre post. content_type = pre @ ''json'' @ post)"
    by (rule str_contains_iff)
  show ?thesis
    unfolding c [symmetric] using assms
    by (simp add: is_valid_content_def checked_json_def)
qed

theorem content_type_decides_witness:
  "is_valid_content (init example_world) html_response =
     Inl (AnsibleParserError (not_json_message None)) \<and>
   checked_json (init example_world) example_response = Inr example_doc \<and>
   parse html_world (init html_world) [] =
     (Inl (AnsibleParserError
             (not_json_message (Some ''https://example.gitlab.io/example_page/inventory.json''))),
      [Request (Get (Some ''https://example.gitlab.io/example_page/inventory.json'') None)])"
proof -
  have h: "\<nexists>pre post. ''text/html'' = pre @ ''json'' @ post"
    unfolding str_contains_iff [symmetric] by simp
  have j: "\<exists>pre post. ''application/json'' = pre @ ''json'' @ post"
    unfolding str_contains_iff [symmetric] by simp
  from content_type_decides [of html_response "''text/html''" "init example_world"] h
  have "is_valid_content (init example_world) html_response =
          Inl (AnsibleParserError (not_json_message None))"
    by (simp add: html_response_def init_def example_world_def)
  moreover from content_type_decides [of example_response "''application/json''" "init example_world"] j
  have "checked_json (init example_world) example_response = Inr example_doc"
    by (simp add: example_response_def)
  moreover have "parse html_world (init html_world) [] =
     (Inl (AnsibleParserError
             (not_json_message (Some ''https://example.gitlab.io/example_page/inventory.json''))),
      [Request (Get (Some ''https://example.gitlab.io/example_page/inventory.json'') None)])"
    by code_simp
  ultimately show ?thesis by simp
qed

text \<open>
  C6. With no \<^verbatim>\<open>HTTP_URL\<close> in the environment and no \<open>url\<close> option in the
  configuration file, \<open>parse\<close> raises the \<open>AnsibleError\<close> about the missing url and
  the log is as it was: no request has been sent.
\<close>

theorem parse_url_missing:
  assumes "getenv w ''HTTP_URL'' = None" and "get_option w ''url'' = None"
  shows "parse w (init w) log = (Inl (AnsibleError url_missing_message), log)"
  using assms by (simp add: parse_def Let_def resolve_def init_def lift_def)

theorem parse_url_missing_witness:
  "parse bare_world (init bare_world) [] = (Inl (AnsibleError url_missing_message), [])"
  using parse_url_missing [of bare_world "[]"] by (simp add: bare_world_def)

text \<open>
  C7. No call registers \<^verbatim>\<open>_meta\<close> as a group or adds a host or a child to it: not in
  any run of \<open>parse\<close>, and not in \<open>add_groups\<close> for any document and either mode.
\<close>

theorem meta_never_a_group:
  "list_all (\<lambda>e. \<not> names_group (PStr ''_meta'') e) (snd (parse w self [])) \<and>
   (\<exists>es. snd (add_groups w groups mode log) = log @ es \<and>
      list_all (\<lambda>e. \<not> names_group (PStr ''_meta'') e) es)"
proof
  from parse_shape [of w self] obtain reqs hv hp cp where
    "snd (parse w self []) = reqs @ hv @ hp @ cp" "list_all is_request reqs"
    "list_all is_hostvars hv" "list_all (in_pass ''hosts'') hp" "list_all (in_pass ''children'') cp"
    by blast
  then show "list_all (\<lambda>e. \<not> names_group (PStr ''_meta'') e) (snd (parse w self []))"
    by (auto simp: list_all_iff dest: in_pass_not_meta is_request_not_meta is_hostvars_not_meta)
next
  from emitsD [OF emits_add_groups, of w groups mode log] obtain es where
    "snd (add_groups w groups mode log) = log @ es" "list_all (in_pass mode) es" by blast
  then show "\<exists>es. snd (add_groups w groups mode log) = log @ es \<and>
      list_all (\<lambda>e. \<not> names_group (PStr ''_meta'') e) es"
    by (auto simp: list_all_iff dest: in_pass_not_meta)
qed


text \<open>
  C8. With the url resolved and an authentication method that is none of absent,
  \<open>None\<close>, \<open>basic\<close> and \<open>gitlab\<close>, neither fetch branch runs: the plugin and the log
  are unchanged, the data stays None, and \<open>parse\<close> raises the \<open>AnsibleParserError\<close> for
  no data.
\<close>

theorem parse_unknown_auth_method:
  assumes "url (resolve w (init w)) \<noteq> None"
    and "auth_method (resolve w (init w)) \<notin> {None, Some ''None'', Some ''basic'', Some ''gitlab''}"
  shows "fetch w (resolve w (init w)) log = (Inr (resolve w (init w)), log) \<and>
         data (resolve w (init w)) = PNone \<and>
         parse w (init w) log = (Inl (AnsibleParserError no_data_message), log)"
proof -
  have d: "data (resolve w (init w)) = PNone"
    by (simp add: resolve_def init_def)
  from fetch_no_branch [OF assms(2)] have f: "fetch w (resolve w (init w)) = return (resolve w (init w))" .
  show ?thesis
    by (simp add: parse_with_url [OF assms(1)] f d return_def bnd_def populate_def lift_def)
qed

theorem parse_unknown_auth_method_witness:
  "parse token_world (init token_world) [] = (Inl (AnsibleParserError no_data_message), [])"
  using parse_unknown_auth_method [of token_world "[]"]
  by (simp add: token_world_def example_world_def resolve_def init_def)

text \<open>
  C9. Let \<open>fetch\<close> have obtained a document, and take a top-level key of it other than
  \<^verbatim>\<open>_meta\<close>. In a run of \<open>parse\<close> that returns, the key is registered as a group once in
  the hosts pass and once in the children pass, twice in the whole log. For a
  well-formed document and an inventory that accepts every call the run returns, so the
  key is registered exactly twice.
\<close>

theorem add_group_twice:
  assumes "url (resolve w self) \<noteq> None"
    and "fetch w (resolve w self) [] = (Inr self', reqs)"
    and "distinct (keys_of (data self'))"
    and "grp \<in> set (keys_of (data self'))"
    and "grp \<noteq> PStr ''_meta''"
  shows "(\<forall>r. fst (parse w self []) = Inr r \<longrightarrow>
            snd (parse w self []) =
              reqs @ hostvars_pass (data self') @ hosts_pass (data self') @
                children_pass (data self') \<and>
            count_list (hosts_pass (data self')) (Sink (AddGroup grp)) = 1 \<and>
            count_list (children_pass (data self')) (Sink (AddGroup grp)) = 1 \<and>
            count_list (snd (parse w self [])) (Sink (AddGroup grp)) = 2) \<and>
         (wf_inventory (data self') \<and> (\<forall>log c. sink w log c = None) \<longrightarrow>
            fst (parse w self []) = Inr ((), data self') \<and>
            count_list (snd (parse w self [])) (Sink (AddGroup grp)) = 2)"
proof -
  have reqs: "list_all is_request reqs"
    using fetch_requests [OF assms(2)] by simp
  from assms(4) obtain kvs where d: "data self' = PDict kvs"
    by (cases "data self'") (simp_all add: keys_of_def)
  have "distinct (groups_of (data self'))"
    using assms(3) by (simp add: d groups_of_def keys_of_def elems_def)
  moreover have "grp \<in> set (groups_of (data self'))"
    using assms(4,5) by (simp add: d groups_of_def keys_of_def elems_def)
  ultimately have g: "count_list (groups_of (data self')) grp = 1"
    by (rule count_distinct)
  have c: "count_list (reqs @ hostvars_pass (data self') @ hosts_pass (data self') @
             children_pass (data self')) (Sink (AddGroup grp)) = 2"
    by (simp add: count_requests [OF reqs] count_hostvars_pass count_hosts_pass
          count_children_pass g)
  have 1: "\<forall>r. fst (parse w self []) = Inr r \<longrightarrow>
            snd (parse w self []) =
              reqs @ hostvars_pass (data self') @ hosts_pass (data self') @
                children_pass (data self') \<and>
            count_list (hosts_pass (data self')) (Sink (AddGroup grp)) = 1 \<and>
            count_list (children_pass (data self')) (Sink (AddGroup grp)) = 1 \<and>
            count_list (snd (parse w self [])) (Sink (AddGroup grp)) = 2"
  proof (intro allI impI)
    fix r assume "fst (parse w self []) = Inr r"
    from parse_after_fetch_returns [OF assms(1,2) this] c
    show "snd (parse w self []) =
              reqs @ hostvars_pass (data self') @ hosts_pass (data self') @
                children_pass (data self') \<and>
            count_list (hosts_pass (data self')) (Sink (AddGroup grp)) = 1 \<and>
            count_list (children_pass (data self')) (Sink (AddGroup grp)) = 1 \<and>
            count_list (snd (parse w self [])) (Sink (AddGroup grp)) = 2"
      by (simp add: count_hosts_pass count_children_pass g)
  qed
  have 2: "wf_inventory (data self') \<and> (\<forall>log c. sink w log c = None) \<longrightarrow>
            fst (parse w self []) = Inr ((), data self') \<and>
            count_list (snd (parse w self [])) (Sink (AddGroup grp)) = 2"
  proof
    assume a: "wf_inventory (data self') \<and> (\<forall>log c. sink w log c = None)"
    then have "parse w self [] =
           (Inr ((), data self'),
            reqs @ hostvars_pass (data self') @ hosts_pass (data self') @
              children_pass (data self'))"
      using parse_after_fetch_wf [OF assms(1,2)] by blast
    with c show "fst (parse w self []) = Inr ((), data self') \<and>
            count_list (snd (parse w self [])) (Sink (AddGroup grp)) = 2"
      by simp
  qed
  from 1 2 show ?thesis by (rule conjI)
qed

theorem add_group_twice_witness:
  "count_list (snd (parse example_world (init example_world) []))
     (Sink (AddGroup (PStr ''g1''))) = 2 \<and>
   count_list (snd (parse example_world (init example_world) []))
     (Sink (AddGroup (PStr ''g2''))) = 2"
proof -
  let ?self = "(resolve example_world (init example_world))\<lparr>data := example_doc\<rparr>"
  have wf: "wf_inventory (data ?self) \<and> (\<forall>log c. sink example_world log c = None)"
    by (simp add: example_doc_wf example_sink)
  have dist: "distinct (keys_of (data ?self))"
    by (simp add: example_keys)
  have g1: "PStr ''g1'' \<in> set (keys_of (data ?self))" "PStr ''g1'' \<noteq> PStr ''_meta''"
    by (simp_all add: example_keys)
  have g2: "PStr ''g2'' \<in> set (keys_of (data ?self))" "PStr ''g2'' \<noteq> PStr ''_meta''"
    by (simp_all add: example_keys)
  from add_group_twice [OF example_url example_fetch dist g1] wf
  have "count_list (snd (parse example_world (init example_world) []))
          (Sink (AddGroup (PStr ''g1''))) = 2"
    by blast
  moreover from add_group_twice [OF example_url example_fetch dist g2] wf
  have "count_list (snd (parse example_world (init example_world) []))
          (Sink (AddGroup (PStr ''g2''))) = 2"
    by blast
  ultimately show ?thesis by simp
qed

text \<open>
  C10. When a document was fetched (the data is not None) and it has no key
  \<^verbatim>\<open>_meta\<close>, or the value of its \<^verbatim>\<open>_meta\<close> has no key \<^verbatim>\<open>hostvars\<close>, \<open>parse\<close> raises the
  error of the subscript \<^verbatim>\<open>data['_meta']['hostvars']\<close>: KeyError when the value
  subscripted is an object, TypeError when it is not. It is neither of the plugin's
  own errors, and the log holds the requests only: no call has reached the inventory.
\<close>

theorem parse_hostvars_unguarded:
  assumes "url (resolve w self) \<noteq> None"
    and "fetch w (resolve w self) [] = (Inr self', reqs)"
    and "data self' \<noteq> PNone"
    and "\<not> has_key (data self') ''_meta'' \<or>
         \<not> has_key (item (data self') (PStr ''_meta'')) ''hostvars''"
  shows "parse w self [] =
           (Inl (if is_object (if has_key (data self') ''_meta''
                               then item (data self') (PStr ''_meta'') else data self')
                 then KeyError else TypeError), reqs) \<and>
         list_all is_request reqs"
proof -
  from fetch_requests [OF assms(2)] have "list_all is_request reqs" by simp
  moreover have "parse w self [] =
           (Inl (if is_object (if has_key (data self') ''_meta''
                               then item (data self') (PStr ''_meta'') else data self')
                 then KeyError else TypeError), reqs)"
    by (simp add: parse_with_url [OF assms(1)] bnd_def assms(2)
          populate_lookup_error [OF assms(3,4)])
  ultimately show ?thesis by simp
qed

theorem parse_hostvars_unguarded_witness:
  "parse no_meta_world (init no_meta_world) [] =
     (Inl KeyError,
      [Request (Get (Some ''https://example.gitlab.io/example_page/inventory.json'') None)])"
proof -
  have u: "url (resolve no_meta_world (init no_meta_world)) \<noteq> None"
    by (simp add: resolve_def init_def no_meta_world_def example_world_def)
  have d: "data ((resolve no_meta_world (init no_meta_world))\<lparr>data := no_meta_doc\<rparr>) \<noteq> PNone"
    by (simp add: no_meta_doc_def)
  have k: "\<not> has_key (data ((resolve no_meta_world (init no_meta_world))\<lparr>data := no_meta_doc\<rparr>)) ''_meta''"
    by (simp add: no_meta_doc_def has_key_def)
  from parse_hostvars_unguarded [OF u no_meta_fetch d] k show ?thesis
    by (simp add: no_meta_doc_def is_object_def)
qed

end
